theory Spec2Isabelle
  imports Main "HOL-Library.Word" "HOL-Library.Multiset" "HOL-Library.Sublist"
begin

unbundle bit_operations_syntax

section \<open>Process memory\<close>

text \<open>
  The backend in \<^verbatim>\<open>ext/mach.c\<close> reads and patches the live memory of the process.
  Memory is a store from byte addresses to bytes. Addresses used to index the store are
  natural numbers; pointer \<^emph>\<open>values\<close> (what is kept in a pointer slot, what
  \<^verbatim>\<open>bin_find_symbol\<close> returns) are 64-bit words, and a pointer value \<open>p\<close> designates
  the address \<open>unat p\<close>. The target is x86-64, so multi-byte values are little-endian.
  Address arithmetic is not reduced modulo \<open>2 ^ 64\<close>: a table or a slot that runs
  past the end of the address space is outside what C defines for pointers.
\<close>

type_synonym byte = "8 word"
type_synonym ptr = "64 word"
type_synonym memory = "nat \<Rightarrow> byte"

definition read_le :: "memory \<Rightarrow> nat \<Rightarrow> nat \<Rightarrow> 'a::len word" where
  "read_le m a n = word_rcat (rev (map m [a..<a + n]))"

definition read_u32 :: "memory \<Rightarrow> nat \<Rightarrow> 32 word" where
  "read_u32 m a = read_le m a 4"

definition read_ptr :: "memory \<Rightarrow> nat \<Rightarrow> ptr" where
  "read_ptr m a = read_le m a 8"

definition ptr_byte :: "ptr \<Rightarrow> nat \<Rightarrow> byte" where
  "ptr_byte v k = ucast (drop_bit (8 * k) v)"

definition write_ptr :: "memory \<Rightarrow> nat \<Rightarrow> ptr \<Rightarrow> memory" where
  "write_ptr m a v = (\<lambda>x. if a \<le> x \<and> x < a + 8 then ptr_byte v (x - a) else m x)"

section \<open>The dyld stub table\<close>

text \<open>
  \<^verbatim>\<open>struct tramp_st2_entry\<close> is declared in \<^verbatim>\<open>arch.h\<close>; this backend only reads
  its \<^verbatim>\<open>addr\<close> field, the entry address of the trampoline.
\<close>

record tramp_st2_entry =
  addr :: ptr

text \<open>
  \<^verbatim>\<open>struct dyld_stub_entry\<close> is packed: two opcode bytes, then a \<^verbatim>\<open>uint32_t\<close>
  offset, six bytes in all. \<^verbatim>\<open>(void*)(entry + 1) + entry->offset\<close> adds the unsigned
  offset to the address just past the entry.
\<close>

definition stub_slot :: "memory \<Rightarrow> nat \<Rightarrow> nat" where
  "stub_slot m entry = entry + 6 + unat (read_u32 m (entry + 2))"

text \<open>
  The slot as the specification gives it: entry address + record length + the 4-byte
  displacement read as a signed number, which is how the processor reads the operand of
  \<open>ff 25\<close>. It is the slot of the code when the displacement is not negative.
\<close>

definition spec_stub_slot :: "memory \<Rightarrow> nat \<Rightarrow> int" where
  "spec_stub_slot m entry = int entry + 6 + sint (read_u32 m (entry + 2))"

definition get_dyld_stub_target :: "memory \<Rightarrow> nat \<Rightarrow> ptr" where
  "get_dyld_stub_target m entry =
     (if m entry = 0xff \<and> m (entry + 1) = 0x25 then read_ptr m (stub_slot m entry) else 0)"

definition set_dyld_stub_target :: "memory \<Rightarrow> nat \<Rightarrow> ptr \<Rightarrow> memory" where
  "set_dyld_stub_target m entry a = write_ptr m (stub_slot m entry) a"

function update_dyld_stub_loop ::
  "ptr \<Rightarrow> tramp_st2_entry \<Rightarrow> nat \<Rightarrow> nat \<Rightarrow> int \<Rightarrow> memory \<Rightarrow> int \<times> memory" where
  "update_dyld_stub_loop trampee_addr tramp max_addr entry ret m =
     (if entry < max_addr then
        (let target = get_dyld_stub_target m entry in
         if trampee_addr = target
         then update_dyld_stub_loop trampee_addr tramp max_addr (entry + 6) 0
                (set_dyld_stub_target m entry (addr tramp))
         else update_dyld_stub_loop trampee_addr tramp max_addr (entry + 6) ret m)
      else (ret, m))"
  by pat_completeness auto
termination
  by (relation "measure (\<lambda>(t, tr, mx, e, r, m). mx - e)") auto

definition update_dyld_stub_table ::
  "memory \<Rightarrow> nat \<Rightarrow> nat \<Rightarrow> ptr \<Rightarrow> tramp_st2_entry \<Rightarrow> int \<times> memory" where
  "update_dyld_stub_table m table len trampee_addr tramp =
     update_dyld_stub_loop trampee_addr tramp (table + len) table (- 1) m"


text \<open>
  The addresses the loop of \<^verbatim>\<open>update_dyld_stub_table\<close> visits, the opcode test of
  \<^verbatim>\<open>get_dyld_stub_target\<close> as a predicate, and the layout condition under which a
  patching pass for the target \<open>t\<close> cannot feed back into the table it is scanning: the
  pointer slot of an entry whose target is \<open>t\<close> (a slot the pass writes) overlaps no
  entry record and no pointer slot of another entry that is well-formed or has target \<open>t\<close>.
\<close>

definition stub_entries :: "nat \<Rightarrow> nat \<Rightarrow> nat set" where
  "stub_entries table max_addr = {e. \<exists>k. e = table + 6 * k \<and> e < max_addr}"

definition stub_wellformed :: "memory \<Rightarrow> nat \<Rightarrow> bool" where
  "stub_wellformed m e \<longleftrightarrow> m e = 0xff \<and> m (e + 1) = 0x25"

definition stub_separated :: "memory \<Rightarrow> ptr \<Rightarrow> nat set \<Rightarrow> bool" where
  "stub_separated m t E \<longleftrightarrow>
     (\<forall>e\<in>E. get_dyld_stub_target m e = t \<longrightarrow>
        (\<forall>e'\<in>E. stub_slot m e + 8 \<le> e' \<or> e' + 6 \<le> stub_slot m e) \<and>
        (\<forall>e'\<in>E. stub_wellformed m e' \<or> get_dyld_stub_target m e' = t \<longrightarrow> e' \<noteq> e \<longrightarrow>
            stub_slot m e + 8 \<le> stub_slot m e' \<or> stub_slot m e' + 8 \<le> stub_slot m e))"

section \<open>The symbol table and the resolver\<close>

text \<open>
  \<^verbatim>\<open>struct nlist_64\<close> comes from \<^verbatim>\<open><mach-o/nlist.h>\<close>; the backend reads the
  string index \<^verbatim>\<open>n_un.n_strx\<close> and the address \<^verbatim>\<open>n_value\<close>.

  In \<^verbatim>\<open>struct mach_config\<close> the array \<^verbatim>\<open>symbol_table\<close> with its
  \<^verbatim>\<open>symbol_count\<close> is a list, and so is \<^verbatim>\<open>string_table\<close> with its
  \<^verbatim>\<open>string_table_size\<close>. The zeroed configuration (before \<^verbatim>\<open>bin_init\<close>) has both
  lists empty. Reading an array outside its bounds is the error \<open>OutOfBounds\<close>, a
  failed \<^verbatim>\<open>assert\<close> is \<open>AssertionFailed\<close>, and \<^verbatim>\<open>errx\<close> is \<open>Errx\<close>.
\<close>

datatype error = AssertionFailed | OutOfBounds | Errx string

record nlist_64 =
  n_strx :: "32 word"
  n_value :: "64 word"

record mach_config =
  symbol_table :: "nlist_64 list"
  string_table :: "char list"
  image_offset :: "64 word"

abbreviation NUL :: char where
  "NUL \<equiv> CHR 0x00"

text \<open>\<^verbatim>\<open>get_symtab_string\<close> returns a pointer into the string pool: here, the offset.\<close>

definition get_symtab_string :: "mach_config \<Rightarrow> 32 word \<Rightarrow> error + nat" where
  "get_symtab_string cfg stroff =
     (if string_table cfg \<noteq> [] \<and> unat stroff < length (string_table cfg)
      then Inr (unat stroff) else Inl AssertionFailed)"

text \<open>
  \<^verbatim>\<open>strcmp(symbol, p) == 0\<close> for a C string \<open>symbol\<close> (its characters up to the
  first NUL, or all of them) against the bytes \<open>bs\<close> of the pool from \<open>p\<close> on. The
  comparison stops at the first difference; running off the pool is \<open>OutOfBounds\<close>.
\<close>

fun strcmp_eq :: "string \<Rightarrow> char list \<Rightarrow> error + bool" where
  "strcmp_eq symbol [] = Inl OutOfBounds"
| "strcmp_eq [] (b # bs) = Inr (b = NUL)"
| "strcmp_eq (a # as) (b # bs) =
     (if a = NUL then Inr (b = NUL)
      else if a = b then strcmp_eq as bs
      else Inr False)"

text \<open>The test \<^verbatim>\<open>string && strcmp(symbol, string+1) == 0\<close> of \<^verbatim>\<open>bin_find_symbol\<close>.\<close>

definition name_matches :: "mach_config \<Rightarrow> string \<Rightarrow> nlist_64 \<Rightarrow> error + bool" where
  "name_matches cfg symbol nlist_entry =
     (case get_symtab_string cfg (n_strx nlist_entry) of
        Inl err \<Rightarrow> Inl err
      | Inr string \<Rightarrow> strcmp_eq symbol (drop (string + 1) (string_table cfg)))"

text \<open>
  The \<^verbatim>\<open>while (next_entry == NULL)\<close> loop: \<open>j\<close> counts up from 1 and
  \<^verbatim>\<open>symbol_table[i + j]\<close> is read with no test against \<^verbatim>\<open>symbol_count\<close>.
  The first read at an index outside the table ends the model's run with \<open>OutOfBounds\<close>;
  up to there \<open>i + j\<close> is below \<^verbatim>\<open>symbol_count\<close>, so the \<^verbatim>\<open>uint32_t\<close> sum
  does not wrap.
\<close>

function next_entry_scan :: "nlist_64 list \<Rightarrow> nat \<Rightarrow> nat \<Rightarrow> error + nlist_64" where
  "next_entry_scan tbl i j =
     (if i + j < length tbl then
        (let tmp_entry = tbl ! (i + j) in
         if n_value (tbl ! i) \<noteq> n_value tmp_entry then Inr tmp_entry
         else next_entry_scan tbl i (j + 1))
      else Inl OutOfBounds)"
  by pat_completeness auto
termination
  by (relation "measure (\<lambda>(tbl, i, j). length tbl - (i + j))") auto

text \<open>
  The result of \<^verbatim>\<open>bin_find_symbol\<close> is the returned pointer (0 is \<^verbatim>\<open>NULL\<close>) and what
  was stored through \<^verbatim>\<open>size\<close>, if anything; \<open>want_size\<close> says that \<^verbatim>\<open>size\<close> is
  not \<^verbatim>\<open>NULL\<close>. The parameter \<^verbatim>\<open>search_libs\<close> is not used by the code.
\<close>

function bin_find_symbol_loop ::
  "mach_config \<Rightarrow> string \<Rightarrow> bool \<Rightarrow> nat \<Rightarrow> error + (ptr \<times> 64 word option)" where
  "bin_find_symbol_loop cfg symbol want_size i =
     (if i < length (symbol_table cfg) then
        (let nlist_entry = symbol_table cfg ! i in
         case name_matches cfg symbol nlist_entry of
           Inl err \<Rightarrow> Inl err
         | Inr False \<Rightarrow> bin_find_symbol_loop cfg symbol want_size (i + 1)
         | Inr True \<Rightarrow>
             (if want_size then
                (case next_entry_scan (symbol_table cfg) i 1 of
                   Inl err \<Rightarrow> Inl err
                 | Inr next_entry \<Rightarrow>
                     Inr (n_value nlist_entry + image_offset cfg,
                          Some (n_value next_entry - n_value nlist_entry)))
              else Inr (n_value nlist_entry + image_offset cfg, None)))
      else Inr (0, None))"
  by pat_completeness auto
termination
  by (relation "measure (\<lambda>(cfg, symbol, want_size, i). length (symbol_table cfg) - i)") auto

definition bin_find_symbol ::
  "mach_config \<Rightarrow> string \<Rightarrow> bool \<Rightarrow> error + (ptr \<times> 64 word option)" where
  "bin_find_symbol cfg symbol want_size =
     (if symbol_table cfg = [] then Inl AssertionFailed
      else bin_find_symbol_loop cfg symbol want_size 0)"

text \<open>\<^verbatim>\<open>bin_find_symbol_name\<close> returns \<^verbatim>\<open>string+1\<close>, a pointer into the pool, or \<^verbatim>\<open>NULL\<close>.\<close>

function bin_find_symbol_name_loop :: "mach_config \<Rightarrow> ptr \<Rightarrow> nat \<Rightarrow> error + nat option" where
  "bin_find_symbol_name_loop cfg symbol i =
     (if i < length (symbol_table cfg) then
        (let nlist_entry = symbol_table cfg ! i in
         case get_symtab_string cfg (n_strx nlist_entry) of
           Inl err \<Rightarrow> Inl err
         | Inr string \<Rightarrow>
             if n_value nlist_entry + image_offset cfg = symbol then Inr (Some (string + 1))
             else bin_find_symbol_name_loop cfg symbol (i + 1))
      else Inr None)"
  by pat_completeness auto
termination
  by (relation "measure (\<lambda>(cfg, symbol, i). length (symbol_table cfg) - i)") auto

definition bin_find_symbol_name :: "mach_config \<Rightarrow> ptr \<Rightarrow> error + nat option" where
  "bin_find_symbol_name cfg symbol =
     (if symbol_table cfg = [] then Inl AssertionFailed
      else bin_find_symbol_name_loop cfg symbol 0)"

text \<open>
  Reading names back: the C string that starts at an offset of the pool, and the C string
  a caller's name denotes.
\<close>

definition c_string_at :: "char list \<Rightarrow> nat \<Rightarrow> string option" where
  "c_string_at pool off =
     (if NUL \<in> set (drop off pool) then Some (takeWhile (\<lambda>c. c \<noteq> NUL) (drop off pool))
      else None)"

definition c_str :: "string \<Rightarrow> string" where
  "c_str s = takeWhile (\<lambda>c. c \<noteq> NUL) s"

text \<open>
  A lookup of \<open>symbol\<close> matches entry \<open>i\<close>: the name test succeeds there and fails,
  without error, at every earlier index.
\<close>

definition first_match :: "mach_config \<Rightarrow> string \<Rightarrow> nat \<Rightarrow> bool" where
  "first_match cfg symbol i \<longleftrightarrow>
     i < length (symbol_table cfg) \<and>
     name_matches cfg symbol (symbol_table cfg ! i) = Inr True \<and>
     (\<forall>k<i. name_matches cfg symbol (symbol_table cfg ! k) = Inr False)"

definition symbol_absent :: "mach_config \<Rightarrow> string \<Rightarrow> bool" where
  "symbol_absent cfg symbol \<longleftrightarrow>
     symbol_table cfg \<noteq> [] \<and>
     (\<forall>k<length (symbol_table cfg). name_matches cfg symbol (symbol_table cfg ! k) = Inr False)"

definition first_with_addr :: "nlist_64 list \<Rightarrow> 64 word \<Rightarrow> nat" where
  "first_with_addr tbl a = length (takeWhile (\<lambda>e. n_value e \<noteq> a) tbl)"


section \<open>The symbol table extractor\<close>

text \<open>
  The load commands of an image are a list (the header's \<^verbatim>\<open>ncmds\<close> is its length), a
  closed set of variants keyed by \<^verbatim>\<open>cmd\<close>. A segment command carries the
  \<^verbatim>\<open>section_64\<close> records that follow it (their number is what the code derives from
  \<^verbatim>\<open>cmdsize\<close>); a symtab command carries the \<^verbatim>\<open>nsyms\<close> entries found at
  \<^verbatim>\<open>symoff\<close> and the \<^verbatim>\<open>strsize\<close> bytes found at \<^verbatim>\<open>stroff\<close>. The layouts are those
  of \<^verbatim>\<open><mach-o/loader.h>\<close>; of a section the code reads \<^verbatim>\<open>sectname\<close> and \<^verbatim>\<open>size\<close>.
\<close>

record section_64 =
  sectname :: string
  sect_size :: "64 word"

record symtab_command =
  file_symtbl :: "nlist_64 list"
  file_strtbl :: "char list"

datatype load_command =
    LC_SEGMENT_64 "section_64 list"
  | LC_SYMTAB symtab_command
  | LC_OTHER

definition nlist_cmp :: "nlist_64 \<Rightarrow> nlist_64 \<Rightarrow> int" where
  "nlist_cmp nlist1 nlist2 =
     (if n_value nlist1 = n_value nlist2 then 0
      else if n_value nlist1 < n_value nlist2 then - 1
      else 1)"

text \<open>
  \<^verbatim>\<open>qsort\<close> belongs to the C library and is a parameter of the extractor. The array
  being sorted holds pointers to the entries; the model sorts the entries. The pointers
  point into the buffer of the file, which \<^verbatim>\<open>bin_init\<close> frees after the extraction; the
  model holds the entries by value and says nothing about later reads through them.
\<close>

type_synonym qsort_fn = "(nlist_64 \<Rightarrow> nlist_64 \<Rightarrow> int) \<Rightarrow> nlist_64 list \<Rightarrow> nlist_64 list"

fun extract_symbol_table ::
  "qsort_fn \<Rightarrow> load_command list \<Rightarrow> error + (nlist_64 list \<times> char list)" where
  "extract_symbol_table qsort [] = Inl (Errx ''Unable to find LC_SYMTAB'')"
| "extract_symbol_table qsort (LC_SYMTAB sc # lcs) =
     Inr (qsort nlist_cmp (file_symtbl sc), file_strtbl sc)"
| "extract_symbol_table qsort (lc # lcs) = extract_symbol_table qsort lcs"

text \<open>The symtab command the loop of the extractor stops at, if there is one.\<close>

fun first_symtab :: "load_command list \<Rightarrow> symtab_command option" where
  "first_symtab [] = None"
| "first_symtab (LC_SYMTAB sc # lcs) = Some sc"
| "first_symtab (lc # lcs) = first_symtab lcs"

text \<open>
  What the C standard promises of \<^verbatim>\<open>qsort\<close> for this comparator: the result is a
  rearrangement of the input in which no element is followed by one that compares smaller.
  The order of elements that compare equal is unspecified.
\<close>

definition qsort_contract :: "qsort_fn \<Rightarrow> bool" where
  "qsort_contract qsort \<longleftrightarrow>
     (\<forall>xs. mset (qsort nlist_cmp xs) = mset xs \<and>
           sorted_wrt (\<lambda>a b. nlist_cmp a b \<le> 0) (qsort nlist_cmp xs))"

text \<open>
  An insertion sort that meets the contract; it puts an element before the elements it
  compares equal to.
\<close>

fun insert_before :: "('a \<Rightarrow> 'a \<Rightarrow> int) \<Rightarrow> 'a \<Rightarrow> 'a list \<Rightarrow> 'a list" where
  "insert_before cmp x [] = [x]"
| "insert_before cmp x (y # ys) =
     (if cmp x y \<le> 0 then x # y # ys else y # insert_before cmp x ys)"

definition qsort_keeping :: "('a \<Rightarrow> 'a \<Rightarrow> int) \<Rightarrow> 'a list \<Rightarrow> 'a list" where
  "qsort_keeping cmp xs = foldr (insert_before cmp) xs []"

subsection \<open>The \<^verbatim>\<open>qsort\<close> of the BSD C library\<close>

text \<open>
  \<^verbatim>\<open>mach.c\<close> is compiled only under \<^verbatim>\<open>HAVE_MACH\<close>, that is on Mac OS X, whose C library
  sorts with the \<^verbatim>\<open>qsort\<close> of BSD (\<^verbatim>\<open>stdlib/qsort.c\<close>, the quicksort of Bentley and
  McIlroy). That file is not part of this repository; the functions below follow it, with
  its names, on a list in place of the array and indices in place of the pointers
  (\<^verbatim>\<open>a\<close> is index 0, \<^verbatim>\<open>es\<close> is 1).

  \<^verbatim>\<open>swap(a, b)\<close> and \<^verbatim>\<open>vecswap(a, b, n)\<close>, which swaps \<open>n\<close> elements from \<open>a\<close> on with
  those from \<open>b\<close> on:
\<close>

definition swap_at :: "'a list \<Rightarrow> nat \<Rightarrow> nat \<Rightarrow> 'a list" where
  "swap_at xs i j = xs[i := xs ! j, j := xs ! i]"

definition vecswap :: "'a list \<Rightarrow> nat \<Rightarrow> nat \<Rightarrow> nat \<Rightarrow> 'a list" where
  "vecswap xs i j r = fold (\<lambda>k ys. swap_at ys (i + k) (j + k)) [0..<r] xs"

text \<open>
  The insertion sort used below seven elements and on an array the partition found in
  order: \<^verbatim>\<open>for (pm = a + es; pm < a + n * es; pm += es)\<close> around
  \<^verbatim>\<open>for (pl = pm; pl > a && cmp(pl - es, pl) > 0; pl -= es) swap(pl, pl - es)\<close>. An
  element moves down only past elements that compare greater.
\<close>

fun insert_down :: "('a \<Rightarrow> 'a \<Rightarrow> int) \<Rightarrow> 'a list \<Rightarrow> nat \<Rightarrow> 'a list" where
  "insert_down cmp xs 0 = xs"
| "insert_down cmp xs (Suc pl) =
     (if cmp (xs ! pl) (xs ! Suc pl) > 0 then insert_down cmp (swap_at xs (Suc pl) pl) pl
      else xs)"

definition insertion_pass :: "('a \<Rightarrow> 'a \<Rightarrow> int) \<Rightarrow> 'a list \<Rightarrow> 'a list" where
  "insertion_pass cmp xs = fold (\<lambda>pm ys. insert_down cmp ys pm) [1..<length xs] xs"

text \<open>
  The pivot: the middle element at seven elements, the median of first, middle and last
  above seven, the median of three such medians above forty.
\<close>

definition med3 :: "('a \<Rightarrow> 'a \<Rightarrow> int) \<Rightarrow> 'a list \<Rightarrow> nat \<Rightarrow> nat \<Rightarrow> nat \<Rightarrow> nat" where
  "med3 cmp xs a b c =
     (if cmp (xs ! a) (xs ! b) < 0
      then (if cmp (xs ! b) (xs ! c) < 0 then b else if cmp (xs ! a) (xs ! c) < 0 then c else a)
      else (if cmp (xs ! b) (xs ! c) > 0 then b else if cmp (xs ! a) (xs ! c) < 0 then a else c))"

definition pivot_index :: "('a \<Rightarrow> 'a \<Rightarrow> int) \<Rightarrow> 'a list \<Rightarrow> nat" where
  "pivot_index cmp xs =
     (let n = length xs; pm = n div 2 in
      if n > 7 then
        (let pl = 0; pn = n - 1 in
         if n > 40 then
           (let d = n div 8 in
            med3 cmp xs (med3 cmp xs pl (pl + d) (pl + 2 * d))
                        (med3 cmp xs (pm - d) pm (pm + d))
                        (med3 cmp xs (pn - 2 * d) (pn - d) pn))
         else med3 cmp xs pl pm pn)
      else pm)"

text \<open>
  The partition around the pivot, which sits at index 0. \<open>down\<close> is false in the first
  inner loop (\<open>pb\<close> moving up) and true in the second (\<open>pc\<close> moving down); elements equal
  to the pivot are swapped to the two ends, at \<open>pa\<close> and \<open>pd\<close>, and \<open>swap_cnt\<close> records
  that a swap took place. The indices are integers because \<open>pc\<close> and \<open>pd\<close> count down.
\<close>

function partition_loop ::
  "('a \<Rightarrow> 'a \<Rightarrow> int) \<Rightarrow> bool \<Rightarrow> 'a list \<Rightarrow> int \<Rightarrow> int \<Rightarrow> int \<Rightarrow> int \<Rightarrow> bool
     \<Rightarrow> 'a list \<times> int \<times> int \<times> int \<times> int \<times> bool" where
  "partition_loop cmp down xs pa pb pc pd swap_cnt =
     (if \<not> down then
        (if pb \<le> pc \<and> cmp (xs ! nat pb) (xs ! 0) \<le> 0 then
           (if cmp (xs ! nat pb) (xs ! 0) = 0
            then partition_loop cmp False (swap_at xs (nat pa) (nat pb)) (pa + 1) (pb + 1) pc pd True
            else partition_loop cmp False xs pa (pb + 1) pc pd swap_cnt)
         else partition_loop cmp True xs pa pb pc pd swap_cnt)
      else
        (if pb \<le> pc \<and> cmp (xs ! nat pc) (xs ! 0) \<ge> 0 then
           (if cmp (xs ! nat pc) (xs ! 0) = 0
            then partition_loop cmp True (swap_at xs (nat pc) (nat pd)) pa pb (pc - 1) (pd - 1) True
            else partition_loop cmp True xs pa pb (pc - 1) pd swap_cnt)
         else if pb > pc then (xs, pa, pb, pc, pd, swap_cnt)
         else partition_loop cmp False (swap_at xs (nat pb) (nat pc)) pa (pb + 1) (pc - 1) pd True))"
  by pat_completeness auto

termination
  by (relation "measure (\<lambda>(cmp, down, xs, pa, pb, pc, pd, sc).
         2 * nat (pc + 1 - pb) + (if down then 0 else 1))") auto

declare partition_loop.simps [simp del]

text \<open>
  One activation of \<^verbatim>\<open>qsort\<close>. After the partition the equal elements are swapped back
  to the middle, then the part below the pivot is sorted by a recursive call and the part
  above it by \<^verbatim>\<open>goto loop\<close>; \<open>again\<close> stands for both. The fuel of \<open>qsort_fuel\<close> bounds the
  nesting of activations, and \<open>qsort_bsd\<close> gives one more than the number of elements,
  which is always enough.
\<close>

definition qsort_round ::
  "(('a \<Rightarrow> 'a \<Rightarrow> int) \<Rightarrow> 'a list \<Rightarrow> 'a list option) \<Rightarrow> ('a \<Rightarrow> 'a \<Rightarrow> int) \<Rightarrow> 'a list
     \<Rightarrow> 'a list option" where
  "qsort_round again cmp xs =
     (let n = length xs in
      if n < 7 then Some (insertion_pass cmp xs)
      else
        (case partition_loop cmp False (swap_at xs 0 (pivot_index cmp xs))
                1 1 (int n - 1) (int n - 1) False of
           (ys, pa, pb, pc, pd, swap_cnt) \<Rightarrow>
             if \<not> swap_cnt then Some (insertion_pass cmp ys)
             else
               (let r1 = nat (min pa (pb - pa));
                    ys1 = vecswap ys 0 (nat pb - r1) r1;
                    r2 = nat (min (pd - pc) (int n - pd - 1));
                    ys2 = vecswap ys1 (nat pb) (n - r2) r2;
                    l = nat (pb - pa);
                    r = nat (pd - pc)
                in case (if l > 1 then again cmp (take l ys2) else Some (take l ys2)) of
                     None \<Rightarrow> None
                   | Some left \<Rightarrow>
                       (case (if r > 1 then again cmp (drop (n - r) ys2)
                              else Some (drop (n - r) ys2)) of
                          None \<Rightarrow> None
                        | Some right \<Rightarrow> Some (left @ take (n - r - l) (drop l ys2) @ right)))))"

primrec qsort_fuel :: "nat \<Rightarrow> ('a \<Rightarrow> 'a \<Rightarrow> int) \<Rightarrow> 'a list \<Rightarrow> 'a list option" where
  "qsort_fuel 0 = (\<lambda>cmp xs. None)"
| "qsort_fuel (Suc fuel) = qsort_round (qsort_fuel fuel)"

definition qsort_bsd :: "('a \<Rightarrow> 'a \<Rightarrow> int) \<Rightarrow> 'a list \<Rightarrow> 'a list" where
  "qsort_bsd cmp xs =
     (case qsort_fuel (Suc (length xs)) cmp xs of Some ys \<Rightarrow> ys | None \<Rightarrow> xs)"

section \<open>The image and section scanner\<close>

text \<open>
  A loaded image is what \<^verbatim>\<open>_dyld_get_image_header(i)\<close> and
  \<^verbatim>\<open>_dyld_get_image_vmaddr_slide(i)\<close> give for an index below \<^verbatim>\<open>_dyld_image_count()\<close>,
  with the load commands that follow the header. The loader and the instruction encoder
  are outside this file; the environment holds what they answer:
  \<^verbatim>\<open>getsectdatafromheader_64\<close> (the data pointer and the length it stores),
  \<^verbatim>\<open>dladdr\<close> (the \<^verbatim>\<open>dli_fname\<close> of the image holding an address, if any),
  \<^verbatim>\<open>arch_insert_st1_tramp\<close> (its return value and the memory it leaves), and the
  address of \<^verbatim>\<open>_mh_bundle_header\<close>, the header of the module this code is linked into.
\<close>

record mach_image =
  header :: ptr
  slide :: "64 word"
  cmds :: "load_command list"

record dyld_env =
  images :: "mach_image list"
  mh_bundle_header :: ptr
  getsectdatafromheader_64 :: "ptr \<Rightarrow> string \<Rightarrow> string \<Rightarrow> ptr \<times> 64 word"
  dladdr :: "ptr \<Rightarrow> string option"
  arch_insert_st1_tramp :: "memory \<Rightarrow> nat \<Rightarrow> ptr \<Rightarrow> tramp_st2_entry \<Rightarrow> int \<times> memory"

definition should_update_stub_table :: "dyld_env \<Rightarrow> ptr \<Rightarrow> bool" where
  "should_update_stub_table env a =
     (case dladdr env a of
        None \<Rightarrow> False
      | Some dli_fname \<Rightarrow>
          (let len = length dli_fname in
           if len \<ge> 6 \<and> drop (len - 6) dli_fname = ''bundle'' then True
           else if len \<ge> 13 \<and> drop (len - 13) dli_fname = ''libruby.dylib'' then True
           else False))"

text \<open>The \<^verbatim>\<open>__text\<close> loop: every byte offset of the section is offered to the encoder.\<close>

function inline_loop ::
  "dyld_env \<Rightarrow> ptr \<Rightarrow> tramp_st2_entry \<Rightarrow> nat \<Rightarrow> nat \<Rightarrow> nat \<Rightarrow> int \<Rightarrow> memory \<Rightarrow> int \<times> memory" where
  "inline_loop env trampee_addr tramp section len cnt ret m =
     (if cnt < len then
        (case arch_insert_st1_tramp env m (section + cnt) trampee_addr tramp of
           (r, m') \<Rightarrow>
             inline_loop env trampee_addr tramp section len (cnt + 1)
               (if r = 0 then 0 else ret) m')
      else (ret, m))"
  by pat_completeness auto
termination
  by (relation "measure (\<lambda>(env, t, tr, section, len, cnt, ret, m). len - cnt)") auto

definition update_mach_section ::
  "dyld_env \<Rightarrow> ptr \<Rightarrow> section_64 \<Rightarrow> 64 word \<Rightarrow> ptr \<Rightarrow> tramp_st2_entry \<Rightarrow> memory
     \<Rightarrow> int \<times> memory" where
  "update_mach_section env hdr sect sl trampee_addr tramp m =
     (case getsectdatafromheader_64 env hdr ''__TEXT'' (sectname sect) of
        (data, len) \<Rightarrow>
          (let section = data + sl in
           if take 13 (sectname sect) = ''__symbol_stub'' then
             (if should_update_stub_table env section then
                (case update_dyld_stub_table m (unat section) (unat (sect_size sect))
                        trampee_addr tramp of
                   (r, m') \<Rightarrow> (if r = 0 then 0 else - 1, m'))
              else (- 1, m))
           else if sectname sect = ''__text'' then
             inline_loop env trampee_addr tramp (unat section) (unat len) 0 (- 1) m
           else (- 1, m)))"

fun section_loop ::
  "dyld_env \<Rightarrow> ptr \<Rightarrow> 64 word \<Rightarrow> ptr \<Rightarrow> tramp_st2_entry \<Rightarrow> section_64 list \<Rightarrow> int \<Rightarrow> memory
     \<Rightarrow> int \<times> memory" where
  "section_loop env hdr sl trampee_addr tramp [] ret m = (ret, m)"
| "section_loop env hdr sl trampee_addr tramp (sect # sects) ret m =
     (case update_mach_section env hdr sect sl trampee_addr tramp m of
        (r, m') \<Rightarrow>
          section_loop env hdr sl trampee_addr tramp sects (if r = 0 then 0 else ret) m')"

fun load_command_loop ::
  "dyld_env \<Rightarrow> ptr \<Rightarrow> 64 word \<Rightarrow> ptr \<Rightarrow> tramp_st2_entry \<Rightarrow> load_command list \<Rightarrow> int \<Rightarrow> memory
     \<Rightarrow> int \<times> memory" where
  "load_command_loop env hdr sl trampee_addr tramp [] ret m = (ret, m)"
| "load_command_loop env hdr sl trampee_addr tramp (LC_SEGMENT_64 sects # lcs) ret m =
     (case section_loop env hdr sl trampee_addr tramp sects ret m of
        (ret', m') \<Rightarrow> load_command_loop env hdr sl trampee_addr tramp lcs ret' m')"
| "load_command_loop env hdr sl trampee_addr tramp (lc # lcs) ret m =
     load_command_loop env hdr sl trampee_addr tramp lcs ret m"

definition update_bin_for_mach_header ::
  "dyld_env \<Rightarrow> mach_image \<Rightarrow> ptr \<Rightarrow> tramp_st2_entry \<Rightarrow> memory \<Rightarrow> int \<times> memory" where
  "update_bin_for_mach_header env img trampee_addr tramp m =
     load_command_loop env (header img) (slide img) trampee_addr tramp (cmds img) (- 1) m"

fun image_loop ::
  "dyld_env \<Rightarrow> ptr \<Rightarrow> tramp_st2_entry \<Rightarrow> mach_image list \<Rightarrow> int \<Rightarrow> memory \<Rightarrow> int \<times> memory" where
  "image_loop env trampee_addr tramp [] ret m = (ret, m)"
| "image_loop env trampee_addr tramp (img # imgs) ret m =
     (if header img = mh_bundle_header env then image_loop env trampee_addr tramp imgs ret m
      else
        (case update_bin_for_mach_header env img trampee_addr tramp m of
           (r, m') \<Rightarrow> image_loop env trampee_addr tramp imgs (if r = 0 then 0 else ret) m'))"

text \<open>
  \<^verbatim>\<open>bin_update_image\<close>: the trampee is looked up with \<^verbatim>\<open>size = NULL\<close>, and the
  pointer that comes back is passed on as it is. \<^verbatim>\<open>orig_function\<close> is not used.
\<close>

definition bin_update_image ::
  "mach_config \<Rightarrow> dyld_env \<Rightarrow> string \<Rightarrow> tramp_st2_entry \<Rightarrow> memory \<Rightarrow> error + (int \<times> memory)" where
  "bin_update_image cfg env trampee tramp m =
     (case bin_find_symbol cfg trampee False of
        Inl err \<Rightarrow> Inl err
      | Inr (trampee_addr, sz) \<Rightarrow> Inr (image_loop env trampee_addr tramp (images env) (- 1) m))"

section \<open>The executable page allocator\<close>

text \<open>
  \<^verbatim>\<open>mmap\<close> is the kernel's: a parameter that takes the kernel's state, the address
  hint and the length (protection and flags are the constants of the call) and gives the
  returned pointer and the new state. \<^verbatim>\<open>memprof_config.pagesize\<close> is a parameter too.
  The loop counter is a \<^verbatim>\<open>size_t\<close>. Nothing in the loop itself bounds the number of
  rounds for every page size, so the loop is a partial function: \<open>None\<close> is a run that
  does not return.
\<close>

definition INT_MAX :: "64 word" where
  "INT_MAX = 0x7fffffff"

definition MAP_FAILED :: ptr where
  "MAP_FAILED = - 1"

definition memset :: "memory \<Rightarrow> nat \<Rightarrow> byte \<Rightarrow> nat \<Rightarrow> memory" where
  "memset m s c n = (\<lambda>x. if s \<le> x \<and> x < s + n then c else m x)"

type_synonym 'k mmap_fn = "'k \<Rightarrow> ptr \<Rightarrow> 64 word \<Rightarrow> ptr \<times> 'k"

partial_function (option) bin_allocate_page_loop ::
  "'k mmap_fn \<Rightarrow> 64 word \<Rightarrow> 64 word \<Rightarrow> 'k \<Rightarrow> memory \<Rightarrow> (ptr \<times> 'k \<times> memory) option" where
  "bin_allocate_page_loop mmap pagesize i k m =
     (if i < INT_MAX - pagesize then
        (case mmap k i pagesize of
           (ret, k') \<Rightarrow>
             if ret \<noteq> MAP_FAILED
             then Some (ret, k', memset m (unat ret) 0x90 (unat pagesize))
             else bin_allocate_page_loop mmap pagesize (i + pagesize) k' m)
      else Some (0, k, m))"

definition bin_allocate_page ::
  "'k mmap_fn \<Rightarrow> 64 word \<Rightarrow> 'k \<Rightarrow> memory \<Rightarrow> (ptr \<times> 'k \<times> memory) option" where
  "bin_allocate_page mmap pagesize k m = bin_allocate_page_loop mmap pagesize pagesize k m"

text \<open>
  The search as the specification words it: the candidate addresses are the positive
  multiples of the page size, in increasing order, as far as the search range goes; each
  is asked for once, and the first mapping the kernel grants is the result.
\<close>

definition stride_hints :: "nat \<Rightarrow> nat list" where
  "stride_hints p = map (\<lambda>j. j * p) [1..<(2147483647 - 1) div p]"

fun first_mapping :: "'k mmap_fn \<Rightarrow> 64 word \<Rightarrow> 'k \<Rightarrow> nat list \<Rightarrow> ptr option \<times> 'k" where
  "first_mapping mmap len k [] = (None, k)"
| "first_mapping mmap len k (h # hs) =
     (case mmap k (of_nat h) len of
        (ret, k') \<Rightarrow>
          if ret \<noteq> MAP_FAILED then (Some ret, k') else first_mapping mmap len k' hs)"

definition bin_type_size :: "string \<Rightarrow> nat" where
  "bin_type_size type_name = 0"

definition bin_type_member_offset :: "string \<Rightarrow> string \<Rightarrow> int" where
  "bin_type_member_offset type_name member = - 1"

text \<open>
  The equations of the loops are applied where a proof asks for them, not by default.
\<close>

declare update_dyld_stub_loop.simps [simp del]
declare next_entry_scan.simps [simp del]
declare bin_find_symbol_loop.simps [simp del]
declare bin_find_symbol_name_loop.simps [simp del]
declare inline_loop.simps [simp del]

section \<open>Example inputs\<close>

text \<open>Memories holding a two-entry stub table at address 100.\<close>

definition ex_stub_mem :: memory where
  "ex_stub_mem = (\<lambda>_. 0)(100 := 0xff, 101 := 0x25, 102 := 10, 117 := 0x10)"

definition cx_malformed_mem :: memory where
  "cx_malformed_mem = (\<lambda>_. 0)(100 := 0xff, 101 := 0x25, 107 := 0x10)"

definition cx_record_mem :: memory where
  "cx_record_mem = (\<lambda>_. 0)(100 := 0xff, 101 := 0x25, 106 := 0xff, 107 := 0x25)"

text \<open>
  A table of one entry, \<open>ff 25 f0 ff ff ff\<close>: the displacement is -16, and the
  pointer slot 16 bytes below the end of the entry, at address 90, holds \<open>0x1000\<close>.
\<close>

definition cx_negative_mem :: memory where
  "cx_negative_mem = (\<lambda>_. 0)(100 := 0xff, 101 := 0x25, 102 := 0xf0, 103 := 0xff, 104 := 0xff,
       105 := 0xff, 91 := 0x10)"

definition ex_stub_mem2 :: memory where
  "ex_stub_mem2 = (\<lambda>_. 0)(100 := 0xff, 101 := 0x25, 102 := 20, 106 := 0xff, 107 := 0x25, 108 := 22,
       127 := 0x10, 135 := 0x20)"

text \<open>
  A symbol table of three entries, sorted by address: \<open>_alloc\<close> and its alias
  \<open>_alias\<close> at the same address, then \<open>_next\<close>, the last entry.
\<close>

definition ex_pool :: "char list" where
  "ex_pool = NUL # ''_alloc'' @ NUL # ''_alias'' @ NUL # ''_next'' @ [NUL]"

definition ex_cfg :: mach_config where
  "ex_cfg = \<lparr>symbol_table =
               [\<lparr>n_strx = 1, n_value = 0x1000\<rparr>,
                \<lparr>n_strx = 8, n_value = 0x1000\<rparr>,
                \<lparr>n_strx = 15, n_value = 0x1040\<rparr>],
             string_table = ex_pool,
             image_offset = 0x100000\<rparr>"

text \<open>
  A process with two images. The first is the module itself; the second is an image whose
  path ends in \<open>libruby.dylib\<close> and whose one section is a stub table, found at
  address 100. The encoder patches nothing.
\<close>

definition ex_env :: dyld_env where
  "ex_env = \<lparr>images =
               [\<lparr>header = 0x7000, slide = 0,
                 cmds = [LC_SEGMENT_64 [\<lparr>sectname = ''__symbol_stub1'', sect_size = 12\<rparr>]]\<rparr>,
                \<lparr>header = 0x5000, slide = 0,
                 cmds = [LC_OTHER,
                         LC_SEGMENT_64 [\<lparr>sectname = ''__symbol_stub1'', sect_size = 12\<rparr>]]\<rparr>],
             mh_bundle_header = 0x7000,
             getsectdatafromheader_64 = (\<lambda>hdr seg sect. (100, 12)),
             dladdr = (\<lambda>a. Some ''/usr/lib/libruby.dylib''),
             arch_insert_st1_tramp = (\<lambda>m a t tr. (- 1, m))\<rparr>"

text \<open>
  The load commands of a file whose symbol table lists the three entries out of order.
\<close>

definition ex_file_cmds :: "load_command list" where
  "ex_file_cmds =
     [LC_OTHER,
      LC_SEGMENT_64 [\<lparr>sectname = ''__text'', sect_size = 64\<rparr>],
      LC_SYMTAB \<lparr>file_symtbl =
                   [\<lparr>n_strx = 15, n_value = 0x1040\<rparr>,
                    \<lparr>n_strx = 1, n_value = 0x1000\<rparr>,
                    \<lparr>n_strx = 8, n_value = 0x1000\<rparr>],
                 file_strtbl = ex_pool\<rparr>]"

text \<open>
  The load commands of a file whose symbol table lists seven names, \<open>_a\<close> to \<open>_g\<close>, of
  one address.
\<close>

definition alias_pool :: "char list" where
  "alias_pool = NUL # ''_a'' @ NUL # ''_b'' @ NUL # ''_c'' @ NUL # ''_d'' @ NUL # ''_e'' @
                NUL # ''_f'' @ NUL # ''_g'' @ [NUL]"

definition alias_cmds :: "load_command list" where
  "alias_cmds =
     [LC_SYMTAB \<lparr>file_symtbl =
                   [\<lparr>n_strx = 1, n_value = 0x1000\<rparr>,
                    \<lparr>n_strx = 4, n_value = 0x1000\<rparr>,
                    \<lparr>n_strx = 7, n_value = 0x1000\<rparr>,
                    \<lparr>n_strx = 10, n_value = 0x1000\<rparr>,
                    \<lparr>n_strx = 13, n_value = 0x1000\<rparr>,
                    \<lparr>n_strx = 16, n_value = 0x1000\<rparr>,
                    \<lparr>n_strx = 19, n_value = 0x1000\<rparr>],
                 file_strtbl = alias_pool\<rparr>]"

text \<open>
  A kernel that counts the calls of \<^verbatim>\<open>mmap\<close> and grants a mapping only at
  \<open>0x40000000\<close>.
\<close>

definition ex_mmap :: "nat mmap_fn" where
  "ex_mmap k hint len = (if hint = 0x40000000 then hint else MAP_FAILED, k + 1)"

text \<open>
  The end-to-end scenario of the specification: the table knows \<open>alloc_fn\<close> at
  \<open>0x1000\<close>, and the one loaded image has a stub table of a single entry.
\<close>

definition e2e_cfg :: mach_config where
  "e2e_cfg = \<lparr>symbol_table = [\<lparr>n_strx = 1, n_value = 0x1000\<rparr>],
              string_table = NUL # ''_alloc_fn'' @ [NUL],
              image_offset = 0\<rparr>"

definition e2e_env :: dyld_env where
  "e2e_env = \<lparr>images =
                [\<lparr>header = 0x5000, slide = 0,
                  cmds = [LC_SEGMENT_64 [\<lparr>sectname = ''__symbol_stub1'', sect_size = 6\<rparr>]]\<rparr>],
              mh_bundle_header = 0x7000,
              getsectdatafromheader_64 = (\<lambda>hdr seg sect. (100, 6)),
              dladdr = (\<lambda>a. Some ''/usr/lib/libruby.dylib''),
              arch_insert_st1_tramp = (\<lambda>m a t tr. (- 1, m))\<rparr>"


section \<open>Facts about the memory model\<close>

lemma bit_horner_bytes:
  "bit (horner_sum uint 256 (ws :: 8 word list)) n \<longleftrightarrow>
     n div 8 < length ws \<and> bit (ws ! (n div 8)) (n mod 8)"
  using bit_horner_sum_uint_exp_iff [of ws n] by simp

lemma bit_read_ptr: "bit (read_ptr m a) n \<longleftrightarrow> n < 64 \<and> bit (m (a + n div 8)) (n mod 8)"
proof -
  have "n < 64 \<Longrightarrow> n div 8 < 8" by simp
  then show ?thesis
    unfolding read_ptr_def read_le_def word_rcat_def
    by (auto simp add: bit_word_of_int_iff bit_horner_bytes simp del: upt_Suc)
qed

lemma read_ptr_write_ptr: "read_ptr (write_ptr m a v) a = v"
proof (rule bit_word_eqI)
  fix n assume "n < LENGTH(64)"
  then have n: "n < 64" by simp
  then have "n div 8 < 8" by simp
  then show "bit (read_ptr (write_ptr m a v) a) n = bit v n"
    using n by (simp add: bit_read_ptr write_ptr_def ptr_byte_def bit_simps)
qed

lemma read_le_cong:
  assumes "\<And>i. i < n \<Longrightarrow> m1 (a + i) = m2 (a + i)"
  shows "(read_le m1 a n :: 'a::len word) = read_le m2 a n"
proof -
  have "map m1 [a..<a + n] = map m2 [a..<a + n]"
  proof (rule map_cong [OF refl])
    fix x assume "x \<in> set [a..<a + n]"
    then have "x - a < n" "x = a + (x - a)" by auto
    with assms [of "x - a"] show "m1 x = m2 x" by simp
  qed
  then show ?thesis unfolding read_le_def by (rule arg_cong)
qed

lemma write_ptr_outside: "x < a \<or> a + 8 \<le> x \<Longrightarrow> write_ptr m a v x = m x"
  by (auto simp: write_ptr_def)

lemma write_ptr_inside: "i < 8 \<Longrightarrow> write_ptr m a v (a + i) = ptr_byte v i"
  by (simp add: write_ptr_def)

lemma read_ptr_write_disjoint:
  assumes "s + 8 \<le> s' \<or> s' + 8 \<le> s"
  shows "read_ptr (write_ptr m s v) s' = read_ptr m s'"
  unfolding read_ptr_def
proof (rule read_le_cong)
  fix i :: nat assume "i < 8"
  then show "write_ptr m s v (s' + i) = m (s' + i)"
    using assms by (intro write_ptr_outside) auto
qed

lemma read_ptr_cong:
  "(\<And>i. i < 8 \<Longrightarrow> m1 (a + i) = m2 (a + i)) \<Longrightarrow> read_ptr m1 a = read_ptr m2 a"
  unfolding read_ptr_def by (rule read_le_cong)

section \<open>The stub-table pass\<close>

lemma stub_entries_step: "e < mx \<Longrightarrow> stub_entries e mx = insert e (stub_entries (e + 6) mx)"
proof (rule set_eqI)
  fix x assume lt: "e < mx"
  show "x \<in> stub_entries e mx \<longleftrightarrow> x \<in> insert e (stub_entries (e + 6) mx)"
  proof
    assume "x \<in> stub_entries e mx"
    then obtain k where k: "x = e + 6 * k" "x < mx" by (auto simp: stub_entries_def)
    show "x \<in> insert e (stub_entries (e + 6) mx)"
    proof (cases k)
      case 0 with k show ?thesis by simp
    next
      case (Suc j)
      with k have "x = (e + 6) + 6 * j" by simp
      with k show ?thesis unfolding stub_entries_def by blast
    qed
  next
    assume "x \<in> insert e (stub_entries (e + 6) mx)"
    then consider "x = e" | j where "x = (e + 6) + 6 * j" "x < mx"
      by (auto simp: stub_entries_def)
    then show "x \<in> stub_entries e mx"
    proof cases
      case 1
      then have "x = e + 6 * 0" by simp
      with lt 1 show ?thesis unfolding stub_entries_def by blast
    next
      case 2
      then have "x = e + 6 * Suc j" by simp
      with 2 show ?thesis unfolding stub_entries_def by blast
    qed
  qed
qed

lemma stub_entries_done: "\<not> e < mx \<Longrightarrow> stub_entries e mx = {}"
  by (auto simp: stub_entries_def)

lemma stub_entries_ge: "x \<in> stub_entries e mx \<Longrightarrow> e \<le> x"
  by (auto simp: stub_entries_def)

lemma entry_view_write:
  assumes "s + 8 \<le> e' \<or> e' + 6 \<le> s"
  shows "stub_wellformed (write_ptr m s v) e' = stub_wellformed m e'"
    and "stub_slot (write_ptr m s v) e' = stub_slot m e'"
proof -
  have b: "\<And>i. i < 6 \<Longrightarrow> write_ptr m s v (e' + i) = m (e' + i)"
    using assms by (intro write_ptr_outside) auto
  from b [of 0] b [of 1] show "stub_wellformed (write_ptr m s v) e' = stub_wellformed m e'"
    by (simp add: stub_wellformed_def)
  have "(read_le (write_ptr m s v) (e' + 2) 4 :: 32 word) = read_le m (e' + 2) 4"
  proof (rule read_le_cong)
    fix i :: nat assume "i < 4"
    then show "write_ptr m s v (e' + 2 + i) = m (e' + 2 + i)"
      using b [of "2 + i"] by (simp add: add.assoc)
  qed
  then show "stub_slot (write_ptr m s v) e' = stub_slot m e'"
    by (simp add: stub_slot_def read_u32_def)
qed

lemma target_alt:
  "get_dyld_stub_target m e = (if stub_wellformed m e then read_ptr m (stub_slot m e) else 0)"
  by (simp add: get_dyld_stub_target_def stub_wellformed_def)

lemma stub_separated_subset: "stub_separated m t E \<Longrightarrow> E' \<subseteq> E \<Longrightarrow> stub_separated m t E'"
  unfolding stub_separated_def by (meson subsetD)

lemma stub_separated_record:
  "stub_separated m t E \<Longrightarrow> e \<in> E \<Longrightarrow> get_dyld_stub_target m e = t \<Longrightarrow> e' \<in> E \<Longrightarrow>
     stub_slot m e + 8 \<le> e' \<or> e' + 6 \<le> stub_slot m e"
  unfolding stub_separated_def by blast

lemma stub_separated_slot:
  "stub_separated m t E \<Longrightarrow> e \<in> E \<Longrightarrow> get_dyld_stub_target m e = t \<Longrightarrow> e' \<in> E \<Longrightarrow>
   stub_wellformed m e' \<or> get_dyld_stub_target m e' = t \<Longrightarrow> e' \<noteq> e \<Longrightarrow>
     stub_slot m e + 8 \<le> stub_slot m e' \<or> stub_slot m e' + 8 \<le> stub_slot m e"
  unfolding stub_separated_def by blast

lemma stub_separated_view:
  assumes "stub_separated m t E"
    and "\<And>x. x \<in> E \<Longrightarrow> stub_wellformed m1 x = stub_wellformed m x"
    and "\<And>x. x \<in> E \<Longrightarrow> stub_slot m1 x = stub_slot m x"
    and "\<And>x. x \<in> E \<Longrightarrow> get_dyld_stub_target m1 x = get_dyld_stub_target m x"
  shows "stub_separated m1 t E"
  unfolding stub_separated_def
proof (intro ballI impI conjI)
  fix e e' assume e: "e \<in> E" "get_dyld_stub_target m1 e = t" and e': "e' \<in> E"
  from e assms(4) have te: "get_dyld_stub_target m e = t" by simp
  from stub_separated_record [OF assms(1) e(1) te e'] assms(3) [OF e(1)]
  show "stub_slot m1 e + 8 \<le> e' \<or> e' + 6 \<le> stub_slot m1 e" by simp
next
  fix e e' assume e: "e \<in> E" "get_dyld_stub_target m1 e = t" and e': "e' \<in> E"
    and w: "stub_wellformed m1 e' \<or> get_dyld_stub_target m1 e' = t" and ne: "e' \<noteq> e"
  from e assms(4) have te: "get_dyld_stub_target m e = t" by simp
  from w e' assms(2,4) have w': "stub_wellformed m e' \<or> get_dyld_stub_target m e' = t" by simp
  from stub_separated_slot [OF assms(1) e(1) te e' w' ne] assms(3) [OF e(1)] assms(3) [OF e']
  show "stub_slot m1 e + 8 \<le> stub_slot m1 e' \<or> stub_slot m1 e' + 8 \<le> stub_slot m1 e" by simp
qed

lemma stub_loop_post:
  "stub_separated m t (stub_entries e mx) \<Longrightarrow>
   update_dyld_stub_loop t tr mx e r m = (r', m') \<Longrightarrow>
     r' = (if \<exists>x\<in>stub_entries e mx. get_dyld_stub_target m x = t then 0 else r) \<and>
     (\<forall>x\<in>stub_entries e mx. get_dyld_stub_target m x = t \<longrightarrow>
        (\<forall>i<8. m' (stub_slot m x + i) = ptr_byte (addr tr) i)) \<and>
     (\<forall>a. (\<forall>x\<in>stub_entries e mx. get_dyld_stub_target m x = t \<longrightarrow>
              a < stub_slot m x \<or> stub_slot m x + 8 \<le> a) \<longrightarrow> m' a = m a)"
proof (induction t tr mx e r m arbitrary: r' m' rule: update_dyld_stub_loop.induct)
  case (1 t tr mx e r m)
  note unf = update_dyld_stub_loop.simps [of t tr mx e r m]
  show ?case
  proof (cases "e < mx")
    case False
    with "1.prems"(2) unf have "r' = r" "m' = m" by simp_all
    with False show ?thesis by (simp add: stub_entries_done)
  next
    case lt: True
    let ?E' = "stub_entries (e + 6) mx"
    have E: "stub_entries e mx = insert e ?E'" using lt by (rule stub_entries_step)
    have sepE': "stub_separated m t ?E'"
      using "1.prems"(1) E by (auto intro: stub_separated_subset)
    have ne: "\<And>x. x \<in> ?E' \<Longrightarrow> x \<noteq> e" using stub_entries_ge by fastforce
    show ?thesis
    proof (cases "t = get_dyld_stub_target m e")
      case False
      with "1.prems"(2) unf lt
      have run: "update_dyld_stub_loop t tr mx (e + 6) r m = (r', m')" by (simp add: Let_def)
      from "1.IH"(2) [OF lt refl False sepE' run] False
      show ?thesis unfolding E by auto
    next
      case match: True
      let ?s = "stub_slot m e"
      let ?m1 = "set_dyld_stub_target m e (addr tr)"
      have m1: "?m1 = write_ptr m ?s (addr tr)" by (simp add: set_dyld_stub_target_def)
      from "1.prems"(2) unf lt match
      have run: "update_dyld_stub_loop t tr mx (e + 6) 0 ?m1 = (r', m')"
        by (simp add: Let_def)
      have eE: "e \<in> stub_entries e mx" unfolding E by simp
      have sub: "\<And>x. x \<in> ?E' \<Longrightarrow> x \<in> stub_entries e mx" unfolding E by simp
      have out: "\<And>x. x \<in> ?E' \<Longrightarrow> ?s + 8 \<le> x \<or> x + 6 \<le> ?s"
        using stub_separated_record [OF "1.prems"(1) eE match [symmetric]] sub by blast
      have dis: "\<And>x. x \<in> ?E' \<Longrightarrow> stub_wellformed m x \<or> get_dyld_stub_target m x = t \<Longrightarrow>
                   ?s + 8 \<le> stub_slot m x \<or> stub_slot m x + 8 \<le> ?s"
        using stub_separated_slot [OF "1.prems"(1) eE match [symmetric]] sub ne by blast
      have view: "\<And>x. x \<in> ?E' \<Longrightarrow>
          stub_wellformed ?m1 x = stub_wellformed m x \<and> stub_slot ?m1 x = stub_slot m x"
        using out unfolding m1 by (simp add: entry_view_write)
      have tgt: "\<And>x. x \<in> ?E' \<Longrightarrow> get_dyld_stub_target ?m1 x = get_dyld_stub_target m x"
      proof -
        fix x assume x: "x \<in> ?E'"
        show "get_dyld_stub_target ?m1 x = get_dyld_stub_target m x"
        proof (cases "stub_wellformed m x")
          case True
          with view [OF x] dis [OF x] show ?thesis
            by (simp add: target_alt) (simp add: m1 read_ptr_write_disjoint)
        next
          case False
          with view [OF x] show ?thesis
            by (simp add: target_alt)
        qed
      qed
      have sep1: "stub_separated ?m1 t ?E'"
        using sepE' by (rule stub_separated_view) (simp_all add: view tgt)
      note ih = "1.IH"(1) [OF lt refl match sep1 run]
      from ih have r': "r' = 0" by (simp split: if_splits)
      have slots: "\<forall>x\<in>?E'. get_dyld_stub_target m x = t \<longrightarrow>
                     (\<forall>i<8. m' (stub_slot m x + i) = ptr_byte (addr tr) i)"
        using ih tgt view by simp
      have frame1: "\<And>a. (\<forall>x\<in>?E'. get_dyld_stub_target m x = t \<longrightarrow>
                        a < stub_slot m x \<or> stub_slot m x + 8 \<le> a) \<Longrightarrow> m' a = ?m1 a"
        using ih tgt view by simp
      have own: "\<forall>i<8. m' (?s + i) = ptr_byte (addr tr) i"
      proof (intro allI impI)
        fix i :: nat assume i: "i < 8"
        have "m' (?s + i) = ?m1 (?s + i)"
        proof (rule frame1, intro ballI impI)
          fix x assume x: "x \<in> ?E'" and tx: "get_dyld_stub_target m x = t"
          from dis [OF x] tx i
          show "?s + i < stub_slot m x \<or> stub_slot m x + 8 \<le> ?s + i" by auto
        qed
        with i show "m' (?s + i) = ptr_byte (addr tr) i" by (simp add: m1 write_ptr_inside)
      qed
      have frame: "\<forall>a. (\<forall>x\<in>insert e ?E'. get_dyld_stub_target m x = t \<longrightarrow>
                        a < stub_slot m x \<or> stub_slot m x + 8 \<le> a) \<longrightarrow> m' a = m a"
      proof (intro allI impI)
        fix a assume a: "\<forall>x\<in>insert e ?E'. get_dyld_stub_target m x = t \<longrightarrow>
                        a < stub_slot m x \<or> stub_slot m x + 8 \<le> a"
        then have "m' a = ?m1 a" by (intro frame1) simp
        moreover from a match have "a < ?s \<or> ?s + 8 \<le> a" by simp
        ultimately show "m' a = m a" by (simp add: m1 write_ptr_outside)
      qed
      from r' slots own frame match show ?thesis unfolding E by auto
    qed
  qed
qed


lemmas stub_eval =
  update_dyld_stub_table_def get_dyld_stub_target_def set_dyld_stub_target_def stub_slot_def
  read_u32_def read_ptr_def read_le_def word_rcat_def write_ptr_def ptr_byte_def upt_rec
  update_dyld_stub_loop.simps

lemma stub_entries_two: "stub_entries 100 112 = {100, 106}"
  by (simp add: stub_entries_step stub_entries_done)

lemma stub_entries_two_sum: "stub_entries 100 (100 + 12) = {100, 106}"
  by (simp add: stub_entries_two)

text \<open>
  The pass in the terms of the code, with the offset read as \<^verbatim>\<open>uint32_t\<close>. For a target
  address that is not \<^verbatim>\<open>NULL\<close> and a table in which no pointer slot that the pass
  writes overlaps an entry record or the pointer slot of another entry.
\<close>

lemma stub_pass_unsigned:
  assumes "trampee_addr \<noteq> 0"
    and "stub_separated m trampee_addr (stub_entries table (table + len))"
    and "update_dyld_stub_table m table len trampee_addr tramp = (ret, m')"
  shows "(\<forall>e\<in>stub_entries table (table + len).
            get_dyld_stub_target m e =
              (if m e = 0xff \<and> m (e + 1) = 0x25
               then read_ptr m (e + 6 + unat (read_u32 m (e + 2))) else 0)) \<and>
         (\<forall>e\<in>stub_entries table (table + len). get_dyld_stub_target m e = trampee_addr \<longrightarrow>
            read_ptr m' (e + 6 + unat (read_u32 m (e + 2))) = addr tramp) \<and>
         (\<forall>a. (\<forall>e\<in>stub_entries table (table + len). get_dyld_stub_target m e = trampee_addr \<longrightarrow>
                 a < e + 6 + unat (read_u32 m (e + 2)) \<or> e + 6 + unat (read_u32 m (e + 2)) + 8 \<le> a)
              \<longrightarrow> m' a = m a) \<and>
         (ret = 0 \<longleftrightarrow> (\<exists>e\<in>stub_entries table (table + len). get_dyld_stub_target m e = trampee_addr)) \<and>
         (ret = 0 \<or> ret = - 1) \<and>
         (\<forall>e\<in>stub_entries table (table + len). \<not> (m e = 0xff \<and> m (e + 1) = 0x25) \<longrightarrow>
            get_dyld_stub_target m e \<noteq> trampee_addr \<and> (\<forall>i<6. m' (e + i) = m (e + i)))"
proof -
  let ?E = "stub_entries table (table + len)"
  from assms(3) have run: "update_dyld_stub_loop trampee_addr tramp (table + len) table (- 1) m = (ret, m')"
    by (simp add: update_dyld_stub_table_def)
  note post = stub_loop_post [OF assms(2) run]
  have dec: "\<forall>e\<in>?E. get_dyld_stub_target m e =
              (if m e = 0xff \<and> m (e + 1) = 0x25
               then read_ptr m (e + 6 + unat (read_u32 m (e + 2))) else 0)"
    by (simp add: get_dyld_stub_target_def stub_slot_def)
  have wr: "\<forall>e\<in>?E. get_dyld_stub_target m e = trampee_addr \<longrightarrow>
            read_ptr m' (e + 6 + unat (read_u32 m (e + 2))) = addr tramp"
  proof (intro ballI impI)
    fix e assume e: "e \<in> ?E" "get_dyld_stub_target m e = trampee_addr"
    with post have b: "\<forall>i<8. m' (stub_slot m e + i) = ptr_byte (addr tramp) i" by blast
    have "read_ptr m' (stub_slot m e) = read_ptr (write_ptr m (stub_slot m e) (addr tramp)) (stub_slot m e)"
      by (rule read_ptr_cong) (simp add: b write_ptr_inside)
    then show "read_ptr m' (e + 6 + unat (read_u32 m (e + 2))) = addr tramp"
      by (simp add: read_ptr_write_ptr stub_slot_def)
  qed
  have fr: "\<forall>a. (\<forall>e\<in>?E. get_dyld_stub_target m e = trampee_addr \<longrightarrow>
                 a < e + 6 + unat (read_u32 m (e + 2)) \<or> e + 6 + unat (read_u32 m (e + 2)) + 8 \<le> a)
              \<longrightarrow> m' a = m a"
    using post by (simp add: stub_slot_def)
  have rt: "ret = 0 \<longleftrightarrow> (\<exists>e\<in>?E. get_dyld_stub_target m e = trampee_addr)"
    using post by auto
  have rv: "ret = 0 \<or> ret = - 1"
    using post by auto
  have mal: "\<forall>e\<in>?E. \<not> (m e = 0xff \<and> m (e + 1) = 0x25) \<longrightarrow>
            get_dyld_stub_target m e \<noteq> trampee_addr \<and> (\<forall>i<6. m' (e + i) = m (e + i))"
  proof (intro ballI impI conjI allI)
    fix e assume e: "e \<in> ?E" and bad: "\<not> (m e = 0xff \<and> m (e + 1) = 0x25)"
    from bad assms(1) show "get_dyld_stub_target m e \<noteq> trampee_addr"
      by (auto simp: get_dyld_stub_target_def)
    fix i :: nat assume i: "i < 6"
    have "\<forall>x\<in>?E. get_dyld_stub_target m x = trampee_addr \<longrightarrow>
            e + i < stub_slot m x \<or> stub_slot m x + 8 \<le> e + i"
    proof (intro ballI impI)
      fix x assume x: "x \<in> ?E" "get_dyld_stub_target m x = trampee_addr"
      from stub_separated_record [OF assms(2) x e]
      have "stub_slot m x + 8 \<le> e \<or> e + 6 \<le> stub_slot m x" .
      with i show "e + i < stub_slot m x \<or> stub_slot m x + 8 \<le> e + i" by auto
    qed
    with post show "m' (e + i) = m (e + i)" by blast
  qed
  from dec wr fr rt rv mal show ?thesis by blast
qed

text \<open>
  The signed displacement of the specification and the unsigned offset of the code give
  the same slot when the displacement is not negative.
\<close>

lemma sint_nonneg_unat:
  fixes w :: "'a::len word"
  assumes "0 \<le> sint w"
  shows "unat w = nat (sint w)"
proof -
  have "sint w < 2 ^ (LENGTH('a) - 1)" by (rule sint_lt)
  also have "(2::int) ^ (LENGTH('a) - 1) \<le> 2 ^ LENGTH('a)"
    by (rule power_increasing) simp_all
  finally have "take_bit LENGTH('a) (sint w) = sint w"
    using assms by (simp add: take_bit_int_eq_self)
  then have "uint w = sint w" by (simp add: uint_sint)
  then have "nat (uint w) = nat (sint w)" by (rule arg_cong)
  then show ?thesis by (simp only: unat_eq_nat_uint)
qed

lemma stub_slot_signed:
  "0 \<le> sint (read_u32 m (e + 2)) \<Longrightarrow> stub_slot m e = nat (spec_stub_slot m e)"
  by (simp add: stub_slot_def spec_stub_slot_def nat_add_distrib sint_nonneg_unat)

text \<open>
  Claim C4, as amended. For a target address that is not \<^verbatim>\<open>NULL\<close> and a table in which
  no well-formed entry has a negative displacement and no pointer slot that the pass
  writes overlaps an entry record or the pointer slot of another entry: each visited entry
  is decoded as the pointer stored at entry address + 6 + signed displacement when its two
  opcode bytes are \<open>0xff 0x25\<close> (and as \<^verbatim>\<open>NULL\<close> otherwise); after the pass exactly
  the pointer slots of the entries whose decoded target is the target address hold the
  trampoline's address, and every byte outside those slots is as before; the return value
  is 0 if some entry was rewritten and -1 if none was; an entry with other opcode bytes
  never matches and its six bytes are unchanged.
\<close>

theorem update_dyld_stub_table_rewrites:
  assumes "trampee_addr \<noteq> 0"
    and "\<forall>e\<in>stub_entries table (table + len).
           m e = 0xff \<and> m (e + 1) = 0x25 \<longrightarrow> 0 \<le> sint (read_u32 m (e + 2))"
    and "stub_separated m trampee_addr (stub_entries table (table + len))"
    and "update_dyld_stub_table m table len trampee_addr tramp = (ret, m')"
  shows "(\<forall>e\<in>stub_entries table (table + len).
            get_dyld_stub_target m e =
              (if m e = 0xff \<and> m (e + 1) = 0x25
               then read_ptr m (nat (spec_stub_slot m e)) else 0)) \<and>
         (\<forall>e\<in>stub_entries table (table + len). get_dyld_stub_target m e = trampee_addr \<longrightarrow>
            read_ptr m' (nat (spec_stub_slot m e)) = addr tramp) \<and>
         (\<forall>a. (\<forall>e\<in>stub_entries table (table + len). get_dyld_stub_target m e = trampee_addr \<longrightarrow>
                 a < nat (spec_stub_slot m e) \<or> nat (spec_stub_slot m e) + 8 \<le> a)
              \<longrightarrow> m' a = m a) \<and>
         (ret = 0 \<longleftrightarrow> (\<exists>e\<in>stub_entries table (table + len). get_dyld_stub_target m e = trampee_addr)) \<and>
         (ret = 0 \<or> ret = - 1) \<and>
         (\<forall>e\<in>stub_entries table (table + len). \<not> (m e = 0xff \<and> m (e + 1) = 0x25) \<longrightarrow>
            get_dyld_stub_target m e \<noteq> trampee_addr \<and> (\<forall>i<6. m' (e + i) = m (e + i)))"
proof -
  let ?E = "stub_entries table (table + len)"
  note u = stub_pass_unsigned [OF assms(1) assms(3) assms(4)]
  have wf: "m e = 0xff \<and> m (e + 1) = 0x25" if "get_dyld_stub_target m e = trampee_addr" for e
    using that assms(1) by (auto simp: get_dyld_stub_target_def split: if_splits)
  have sl: "e + 6 + unat (read_u32 m (e + 2)) = nat (spec_stub_slot m e)"
    if "e \<in> ?E" "m e = 0xff \<and> m (e + 1) = 0x25" for e
    using that assms(2) stub_slot_signed [of m e] by (simp add: stub_slot_def)
  have dec: "\<forall>e\<in>?E. get_dyld_stub_target m e =
              (if m e = 0xff \<and> m (e + 1) = 0x25
               then read_ptr m (nat (spec_stub_slot m e)) else 0)"
  proof
    fix e assume e: "e \<in> ?E"
    show "get_dyld_stub_target m e =
              (if m e = 0xff \<and> m (e + 1) = 0x25
               then read_ptr m (nat (spec_stub_slot m e)) else 0)"
    proof (cases "m e = 0xff \<and> m (e + 1) = 0x25")
      case True
      with sl [OF e True] show ?thesis by (simp add: get_dyld_stub_target_def stub_slot_def)
    next
      case False
      then show ?thesis by (auto simp: get_dyld_stub_target_def)
    qed
  qed
  have wr: "\<forall>e\<in>?E. get_dyld_stub_target m e = trampee_addr \<longrightarrow>
            read_ptr m' (nat (spec_stub_slot m e)) = addr tramp"
  proof (intro ballI impI)
    fix e assume e: "e \<in> ?E" and t: "get_dyld_stub_target m e = trampee_addr"
    from u e t have "read_ptr m' (e + 6 + unat (read_u32 m (e + 2))) = addr tramp" by blast
    with sl [OF e wf [OF t]] show "read_ptr m' (nat (spec_stub_slot m e)) = addr tramp" by simp
  qed
  have fr: "\<forall>a. (\<forall>e\<in>?E. get_dyld_stub_target m e = trampee_addr \<longrightarrow>
                 a < nat (spec_stub_slot m e) \<or> nat (spec_stub_slot m e) + 8 \<le> a)
              \<longrightarrow> m' a = m a"
  proof (intro allI impI)
    fix a
    assume out: "\<forall>e\<in>?E. get_dyld_stub_target m e = trampee_addr \<longrightarrow>
                 a < nat (spec_stub_slot m e) \<or> nat (spec_stub_slot m e) + 8 \<le> a"
    have "\<forall>e\<in>?E. get_dyld_stub_target m e = trampee_addr \<longrightarrow>
                 a < e + 6 + unat (read_u32 m (e + 2)) \<or> e + 6 + unat (read_u32 m (e + 2)) + 8 \<le> a"
    proof (intro ballI impI)
      fix e assume e: "e \<in> ?E" and t: "get_dyld_stub_target m e = trampee_addr"
      from out e t have "a < nat (spec_stub_slot m e) \<or> nat (spec_stub_slot m e) + 8 \<le> a" by blast
      with sl [OF e wf [OF t]]
      show "a < e + 6 + unat (read_u32 m (e + 2)) \<or> e + 6 + unat (read_u32 m (e + 2)) + 8 \<le> a"
        by simp
    qed
    with u show "m' a = m a" by blast
  qed
  from u have rt: "ret = 0 \<longleftrightarrow> (\<exists>e\<in>?E. get_dyld_stub_target m e = trampee_addr)"
    by (elim conjE)
  from u have rv: "ret = 0 \<or> ret = - 1"
    by (elim conjE)
  from u have mal: "\<forall>e\<in>?E. \<not> (m e = 0xff \<and> m (e + 1) = 0x25) \<longrightarrow>
            get_dyld_stub_target m e \<noteq> trampee_addr \<and> (\<forall>i<6. m' (e + i) = m (e + i))"
    by (elim conjE)
  from dec wr fr rt rv mal show ?thesis by (intro conjI)
qed

text \<open>
  The theorem at a table of two entries: the first is well formed, has displacement 10 and
  points at a slot holding \<open>0x1000\<close>, the second has zero opcode bytes.
\<close>

theorem update_dyld_stub_table_rewrites_witness:
  "fst (update_dyld_stub_table ex_stub_mem 100 12 0x1000 \<lparr>addr = 0x9000\<rparr>) = 0 \<and>
   spec_stub_slot ex_stub_mem 100 = 116 \<and>
   read_ptr (snd (update_dyld_stub_table ex_stub_mem 100 12 0x1000 \<lparr>addr = 0x9000\<rparr>)) 116 = 0x9000 \<and>
   snd (update_dyld_stub_table ex_stub_mem 100 12 0x1000 \<lparr>addr = 0x9000\<rparr>) 107
     = ex_stub_mem 107"
proof -
  obtain ret m' where
    run: "update_dyld_stub_table ex_stub_mem 100 12 0x1000 \<lparr>addr = 0x9000\<rparr> = (ret, m')"
    by (cases "update_dyld_stub_table ex_stub_mem 100 12 0x1000 \<lparr>addr = 0x9000\<rparr>")
  have nz: "(0x1000 :: ptr) \<noteq> 0" by simp
  have t100: "get_dyld_stub_target ex_stub_mem 100 = 0x1000"
    and t106: "get_dyld_stub_target ex_stub_mem 106 = 0"
    and s100: "stub_slot ex_stub_mem 100 = 116"
    and r100: "read_u32 ex_stub_mem 102 = 10"
    and b106: "ex_stub_mem 106 = 0"
    and w106: "\<not> stub_wellformed ex_stub_mem 106"
    by (simp_all add: ex_stub_mem_def stub_eval stub_wellformed_def)
  have sp: "spec_stub_slot ex_stub_mem 100 = 116"
    by (simp add: spec_stub_slot_def r100)
  have sep: "stub_separated ex_stub_mem 0x1000 (stub_entries 100 (100 + 12))"
    by (simp add: stub_entries_two stub_separated_def t100 t106 s100 w106)
  have pos: "\<forall>e\<in>stub_entries 100 (100 + 12).
           ex_stub_mem e = 0xff \<and> ex_stub_mem (e + 1) = 0x25 \<longrightarrow> 0 \<le> sint (read_u32 ex_stub_mem (e + 2))"
    by (simp add: stub_entries_two r100 b106)
  note t = update_dyld_stub_table_rewrites [OF nz pos sep run, unfolded stub_entries_two_sum]
  from t have "ret = 0" by (simp add: t100)
  moreover from t have "read_ptr m' 116 = 0x9000" using t100 sp by simp
  moreover from t have "\<forall>i<6. m' (106 + i) = ex_stub_mem (106 + i)"
    by (simp add: ex_stub_mem_def)
  from this [rule_format, of 1] have "m' 107 = ex_stub_mem 107" by simp
  ultimately show ?thesis using run sp by simp
qed

text \<open>
  Without the layout condition the last part fails. Here the first entry has displacement
  0, so its pointer slot starts at the second entry; the slot holds the target
  \<open>0x1000\<close>, which makes the second entry's opcode bytes \<open>0x00 0x10\<close>. The pass
  rewrites the slot and with it the second byte of that malformed entry.
\<close>

theorem malformed_entry_overwritten:
  "106 \<in> stub_entries 100 (100 + 12) \<and>
   \<not> (cx_malformed_mem 106 = 0xff \<and> cx_malformed_mem (106 + 1) = 0x25) \<and>
   snd (update_dyld_stub_table cx_malformed_mem 100 12 0x1000 \<lparr>addr = 0x9000\<rparr>) (106 + 1)
     \<noteq> cx_malformed_mem (106 + 1)"
  by (simp add: stub_entries_two) (simp add: cx_malformed_mem_def stub_eval)

lemma neg_eval:
  "read_u32 cx_negative_mem 102 = 0xfffffff0"
  "sint (0xfffffff0 :: 32 word) = - 16"
  "unat (0xfffffff0 :: 32 word) = 4294967280"
  by (simp_all add: cx_negative_mem_def stub_eval)

text \<open>
  A negative displacement is outside the theorem. The code adds the offset as a
  \<^verbatim>\<open>uint32_t\<close>: for the entry \<open>ff 25 f0 ff ff ff\<close> at address 100 it reads the slot
  at \<open>106 + 0xfffffff0\<close>, not the slot 16 bytes below 106, which holds the target; the
  entry is not taken as a match and the pass returns -1 with the memory unchanged.
\<close>

theorem negative_displacement_read_above:
  "spec_stub_slot cx_negative_mem 100 = 90 \<and>
   read_ptr cx_negative_mem 90 = 0x1000 \<and>
   stub_slot cx_negative_mem 100 = 4294967386 \<and>
   get_dyld_stub_target cx_negative_mem 100 = 0 \<and>
   update_dyld_stub_table cx_negative_mem 100 6 0x1000 \<lparr>addr = 0x9000\<rparr> = (- 1, cx_negative_mem)"
  apply (simp add: spec_stub_slot_def stub_slot_def neg_eval)
  apply (simp add: cx_negative_mem_def stub_eval)
  done

text \<open>
  Claim C10, as amended. For a table in which no pointer slot that the pass writes
  overlaps an entry record or the pointer slot of another entry, and for every target
  address: the six bytes of every visited entry are unchanged by the pass, and every byte
  that changed lies in the 8-byte pointer slot addressed by the displacement of an entry
  whose decoded target is the target address.
\<close>

theorem stub_records_unchanged:
  assumes "stub_separated m trampee_addr (stub_entries table (table + len))"
    and "update_dyld_stub_table m table len trampee_addr tramp = (ret, m')"
  shows "(\<forall>e\<in>stub_entries table (table + len). \<forall>i<6. m' (e + i) = m (e + i)) \<and>
         (\<forall>a. m' a \<noteq> m a \<longrightarrow>
            (\<exists>e\<in>stub_entries table (table + len). trampee_addr = get_dyld_stub_target m e \<and>
               e + 6 + unat (read_u32 m (e + 2)) \<le> a \<and> a < e + 6 + unat (read_u32 m (e + 2)) + 8))"
proof -
  let ?E = "stub_entries table (table + len)"
  from assms(2) have run: "update_dyld_stub_loop trampee_addr tramp (table + len) table (- 1) m = (ret, m')"
    by (simp add: update_dyld_stub_table_def)
  note post = stub_loop_post [OF assms(1) run]
  then have frame: "\<And>a. (\<forall>x\<in>?E. get_dyld_stub_target m x = trampee_addr \<longrightarrow>
              a < stub_slot m x \<or> stub_slot m x + 8 \<le> a) \<Longrightarrow> m' a = m a"
    by blast
  have rec: "\<forall>e\<in>?E. \<forall>i<6. m' (e + i) = m (e + i)"
  proof (intro ballI allI impI)
    fix e i assume e: "e \<in> ?E" and i: "i < (6::nat)"
    show "m' (e + i) = m (e + i)"
    proof (rule frame, intro ballI impI)
      fix x assume x: "x \<in> ?E" "get_dyld_stub_target m x = trampee_addr"
      from stub_separated_record [OF assms(1) x e] i
      show "e + i < stub_slot m x \<or> stub_slot m x + 8 \<le> e + i" by auto
    qed
  qed
  have only: "\<forall>a. m' a \<noteq> m a \<longrightarrow>
            (\<exists>e\<in>?E. trampee_addr = get_dyld_stub_target m e \<and>
               e + 6 + unat (read_u32 m (e + 2)) \<le> a \<and> a < e + 6 + unat (read_u32 m (e + 2)) + 8)"
  proof (intro allI impI)
    fix a assume "m' a \<noteq> m a"
    with frame [of a] obtain x where "x \<in> ?E" "get_dyld_stub_target m x = trampee_addr"
      "\<not> (a < stub_slot m x \<or> stub_slot m x + 8 \<le> a)" by blast
    then show "\<exists>e\<in>?E. trampee_addr = get_dyld_stub_target m e \<and>
               e + 6 + unat (read_u32 m (e + 2)) \<le> a \<and> a < e + 6 + unat (read_u32 m (e + 2)) + 8"
      unfolding stub_slot_def by (intro bexI [of _ x]) auto
  qed
  from rec only show ?thesis by blast
qed

text \<open>
  The theorem at a table of two well-formed entries, the second of which points at a slot
  holding the target \<open>0x2000\<close>.
\<close>

theorem stub_records_unchanged_witness:
  "snd (update_dyld_stub_table ex_stub_mem2 100 12 0x2000 \<lparr>addr = 0x9000\<rparr>) 106
     = ex_stub_mem2 106 \<and>
   snd (update_dyld_stub_table ex_stub_mem2 100 12 0x2000 \<lparr>addr = 0x9000\<rparr>) 108
     = ex_stub_mem2 108 \<and>
   snd (update_dyld_stub_table ex_stub_mem2 100 12 0x2000 \<lparr>addr = 0x9000\<rparr>) 135
     \<noteq> ex_stub_mem2 135"
proof -
  obtain ret m' where
    run: "update_dyld_stub_table ex_stub_mem2 100 12 0x2000 \<lparr>addr = 0x9000\<rparr> = (ret, m')"
    by (cases "update_dyld_stub_table ex_stub_mem2 100 12 0x2000 \<lparr>addr = 0x9000\<rparr>")
  have t100: "get_dyld_stub_target ex_stub_mem2 100 = 0x1000"
    and t106: "get_dyld_stub_target ex_stub_mem2 106 = 0x2000"
    and s100: "stub_slot ex_stub_mem2 100 = 126"
    and s106: "stub_slot ex_stub_mem2 106 = 134"
    and w100: "stub_wellformed ex_stub_mem2 100"
    by (simp_all add: ex_stub_mem2_def stub_eval stub_wellformed_def)
  have sep: "stub_separated ex_stub_mem2 0x2000 (stub_entries 100 (100 + 12))"
    by (simp add: stub_entries_two stub_separated_def t100 t106 s100 s106 w100)
  note t = stub_records_unchanged [OF sep run, unfolded stub_entries_two_sum]
  from t have r: "\<forall>i<6. m' (106 + i) = ex_stub_mem2 (106 + i)" by simp
  from r [rule_format, of 0] r [rule_format, of 2]
  have "m' 106 = ex_stub_mem2 106" "m' 108 = ex_stub_mem2 108" by simp_all
  moreover have "snd (update_dyld_stub_table ex_stub_mem2 100 12 0x2000 \<lparr>addr = 0x9000\<rparr>) 135
          \<noteq> ex_stub_mem2 135"
    by (simp add: ex_stub_mem2_def stub_eval)
  ultimately show ?thesis using run by simp
qed

text \<open>
  Without the layout condition an entry record can change. Both entries are well formed;
  the first has displacement 0 and its pointer slot, which starts at the second entry,
  holds the target \<open>0x25ff\<close>. The pass rewrites the slot, and the first opcode byte
  of the second entry turns from \<open>0xff\<close> to \<open>0x00\<close>.
\<close>

theorem wellformed_entry_overwritten:
  "106 \<in> stub_entries 100 (100 + 12) \<and>
   snd (update_dyld_stub_table cx_record_mem 100 12 0x25ff \<lparr>addr = 0x9000\<rparr>) 106
     \<noteq> cx_record_mem 106"
  by (simp add: stub_entries_two) (simp add: cx_record_mem_def stub_eval)

text \<open>
  A pass over a table none of whose entries has the target returns -1 and
  leaves the whole memory as it was, whatever the layout.
\<close>

theorem update_dyld_stub_table_no_match:
  assumes "\<forall>e\<in>stub_entries table (table + len). get_dyld_stub_target m e \<noteq> trampee_addr"
  shows "update_dyld_stub_table m table len trampee_addr tramp = (- 1, m)"
proof -
  obtain ret m' where
    run: "update_dyld_stub_loop trampee_addr tramp (table + len) table (- 1) m = (ret, m')"
    by (cases "update_dyld_stub_loop trampee_addr tramp (table + len) table (- 1) m")
  from assms have sep: "stub_separated m trampee_addr (stub_entries table (table + len))"
    by (simp add: stub_separated_def)
  from stub_loop_post [OF sep run] assms have "ret = - 1" and "\<forall>a. m' a = m a" by auto
  then have "ret = - 1" and "m' = m" by auto
  with run show ?thesis by (simp add: update_dyld_stub_table_def)
qed

text \<open>
  The theorem at the first example table, for a target no entry points at.
\<close>

theorem update_dyld_stub_table_no_match_witness:
  "update_dyld_stub_table ex_stub_mem 100 12 0x2000 \<lparr>addr = 0x9000\<rparr> = (- 1, ex_stub_mem)"
proof -
  have "\<forall>e\<in>stub_entries 100 (100 + 12). get_dyld_stub_target ex_stub_mem e \<noteq> 0x2000"
    by (simp add: stub_entries_two) (simp add: ex_stub_mem_def stub_eval)
  then show ?thesis by (rule update_dyld_stub_table_no_match)
qed


section \<open>The resolver\<close>

lemma name_matches_string:
  "name_matches cfg symbol e = Inr b \<Longrightarrow> get_symtab_string cfg (n_strx e) = Inr (unat (n_strx e))"
  by (auto simp: name_matches_def get_symtab_string_def split: if_splits)

lemma find_loop_skip:
  "first_match cfg symbol i \<Longrightarrow> k \<le> i \<Longrightarrow>
     bin_find_symbol_loop cfg symbol ws k = bin_find_symbol_loop cfg symbol ws i"
proof (induction "i - k" arbitrary: k)
  case 0
  then show ?case by simp
next
  case (Suc d)
  then have lt: "k < i" by simp
  with Suc.prems have "k < length (symbol_table cfg)"
    and "name_matches cfg symbol (symbol_table cfg ! k) = Inr False"
    by (simp_all add: first_match_def)
  then have "bin_find_symbol_loop cfg symbol ws k = bin_find_symbol_loop cfg symbol ws (k + 1)"
    by (subst bin_find_symbol_loop.simps) (simp add: Let_def)
  also have "\<dots> = bin_find_symbol_loop cfg symbol ws i"
    using Suc.hyps(2) lt by (intro Suc.hyps(1) Suc.prems(1)) simp_all
  finally show ?case .
qed

lemma find_loop_hit:
  assumes "first_match cfg symbol i"
  shows "bin_find_symbol_loop cfg symbol ws i =
     (if ws then
        (case next_entry_scan (symbol_table cfg) i 1 of
           Inl err \<Rightarrow> Inl err
         | Inr next_entry \<Rightarrow>
             Inr (n_value (symbol_table cfg ! i) + image_offset cfg,
                  Some (n_value next_entry - n_value (symbol_table cfg ! i))))
      else Inr (n_value (symbol_table cfg ! i) + image_offset cfg, None))"
  using assms
  by (subst bin_find_symbol_loop.simps) (simp add: first_match_def Let_def)

lemma find_symbol_hit:
  assumes "first_match cfg symbol i"
  shows "bin_find_symbol cfg symbol ws =
     (if ws then
        (case next_entry_scan (symbol_table cfg) i 1 of
           Inl err \<Rightarrow> Inl err
         | Inr next_entry \<Rightarrow>
             Inr (n_value (symbol_table cfg ! i) + image_offset cfg,
                  Some (n_value next_entry - n_value (symbol_table cfg ! i))))
      else Inr (n_value (symbol_table cfg ! i) + image_offset cfg, None))"
proof -
  from assms have "symbol_table cfg \<noteq> []" by (auto simp: first_match_def)
  then have "bin_find_symbol cfg symbol ws = bin_find_symbol_loop cfg symbol ws 0"
    by (simp add: bin_find_symbol_def)
  also have "\<dots> = bin_find_symbol_loop cfg symbol ws i"
    using assms by (rule find_loop_skip) simp
  finally show ?thesis using find_loop_hit [OF assms] by simp
qed

lemma find_loop_absent:
  "symbol_absent cfg symbol \<Longrightarrow> bin_find_symbol_loop cfg symbol ws k = Inr (0, None)"
proof (induction "length (symbol_table cfg) - k" arbitrary: k)
  case 0
  then show ?case by (subst bin_find_symbol_loop.simps) simp
next
  case (Suc d)
  then have lt: "k < length (symbol_table cfg)" by simp
  with Suc.prems have "name_matches cfg symbol (symbol_table cfg ! k) = Inr False"
    by (simp add: symbol_absent_def)
  with lt have "bin_find_symbol_loop cfg symbol ws k = bin_find_symbol_loop cfg symbol ws (k + 1)"
    by (subst bin_find_symbol_loop.simps) (simp add: Let_def)
  also have "\<dots> = Inr (0, None)"
    using Suc.hyps(2) by (intro Suc.hyps(1) Suc.prems) simp
  finally show ?case .
qed

lemma find_symbol_absent:
  "symbol_absent cfg symbol \<Longrightarrow> bin_find_symbol cfg symbol ws = Inr (0, None)"
  by (simp add: bin_find_symbol_def find_loop_absent) (simp add: symbol_absent_def)


lemma next_entry_scan_found:
  "i + j \<le> k \<Longrightarrow> k < length tbl \<Longrightarrow> n_value (tbl ! k) \<noteq> n_value (tbl ! i) \<Longrightarrow>
   (\<And>l. i + j \<le> l \<Longrightarrow> l < k \<Longrightarrow> n_value (tbl ! l) = n_value (tbl ! i)) \<Longrightarrow>
     next_entry_scan tbl i j = Inr (tbl ! k)"
proof (induction "k - (i + j)" arbitrary: j)
  case 0
  then have "k = i + j" by simp
  with 0 show ?case by (subst next_entry_scan.simps) (auto simp: Let_def)
next
  case (Suc d)
  then have lt: "i + j < k" by simp
  with Suc.prems have eq: "n_value (tbl ! (i + j)) = n_value (tbl ! i)" by simp
  from lt Suc.prems(2) have "i + j < length tbl" by simp
  with eq have "next_entry_scan tbl i j = next_entry_scan tbl i (j + 1)"
    by (subst next_entry_scan.simps) (simp add: Let_def)
  also have "\<dots> = Inr (tbl ! k)"
    using Suc.hyps(2) lt Suc.prems by (intro Suc.hyps(1)) simp_all
  finally show ?case .
qed

lemma next_entry_scan_out_of_bounds:
  "(\<And>l. i + j \<le> l \<Longrightarrow> l < length tbl \<Longrightarrow> n_value (tbl ! l) = n_value (tbl ! i)) \<Longrightarrow>
     next_entry_scan tbl i j = Inl OutOfBounds"
proof (induction "length tbl - (i + j)" arbitrary: j)
  case 0
  then show ?case by (subst next_entry_scan.simps) simp
next
  case (Suc d)
  then have lt: "i + j < length tbl" by simp
  with Suc.prems have "n_value (tbl ! (i + j)) = n_value (tbl ! i)" by simp
  with lt have "next_entry_scan tbl i j = next_entry_scan tbl i (j + 1)"
    by (subst next_entry_scan.simps) (simp add: Let_def)
  also have "\<dots> = Inl OutOfBounds"
    using Suc.hyps(2) Suc.prems by (intro Suc.hyps(1)) simp_all
  finally show ?case .
qed


lemma strcmp_eq_True:
  "strcmp_eq s bs = Inr True \<Longrightarrow>
     NUL \<in> set bs \<and> takeWhile (\<lambda>c. c \<noteq> NUL) bs = takeWhile (\<lambda>c. c \<noteq> NUL) s"
  by (induction s bs rule: strcmp_eq.induct) (auto split: if_splits)

lemma name_matches_True:
  assumes "name_matches cfg symbol e = Inr True"
  shows "c_string_at (string_table cfg) (unat (n_strx e) + 1) = Some (c_str symbol)"
proof -
  from assms have "strcmp_eq symbol (drop (unat (n_strx e) + 1) (string_table cfg)) = Inr True"
    by (auto simp: name_matches_def get_symtab_string_def split: if_splits)
  from strcmp_eq_True [OF this] show ?thesis by (simp add: c_string_at_def c_str_def)
qed

lemma name_loop_skip:
  "k \<le> j \<Longrightarrow>
   (\<And>l. k \<le> l \<Longrightarrow> l < j \<Longrightarrow> l < length (symbol_table cfg) \<and>
          get_symtab_string cfg (n_strx (symbol_table cfg ! l)) = Inr (unat (n_strx (symbol_table cfg ! l))) \<and>
          n_value (symbol_table cfg ! l) + image_offset cfg \<noteq> p) \<Longrightarrow>
     bin_find_symbol_name_loop cfg p k = bin_find_symbol_name_loop cfg p j"
proof (induction "j - k" arbitrary: k)
  case 0
  then show ?case by simp
next
  case (Suc d)
  then have lt: "k < j" by simp
  from Suc.prems(2) [of k] lt
  have "bin_find_symbol_name_loop cfg p k = bin_find_symbol_name_loop cfg p (k + 1)"
    by (subst bin_find_symbol_name_loop.simps) (simp add: Let_def)
  also have "\<dots> = bin_find_symbol_name_loop cfg p j"
    using Suc.hyps(2) lt Suc.prems(2) by (intro Suc.hyps(1)) simp_all
  finally show ?case .
qed

lemma name_loop_hit:
  "j < length (symbol_table cfg) \<Longrightarrow>
   get_symtab_string cfg (n_strx (symbol_table cfg ! j)) = Inr (unat (n_strx (symbol_table cfg ! j))) \<Longrightarrow>
   n_value (symbol_table cfg ! j) + image_offset cfg = p \<Longrightarrow>
     bin_find_symbol_name_loop cfg p j = Inr (Some (unat (n_strx (symbol_table cfg ! j)) + 1))"
  by (subst bin_find_symbol_name_loop.simps) (simp add: Let_def)

lemma first_with_addr_props:
  assumes "i < length tbl" and "n_value (tbl ! i) = a"
  shows "first_with_addr tbl a \<le> i"
    and "n_value (tbl ! first_with_addr tbl a) = a"
    and "\<And>l. l < first_with_addr tbl a \<Longrightarrow> n_value (tbl ! l) \<noteq> a"
proof -
  let ?P = "\<lambda>e. n_value e \<noteq> a"
  have inP: "\<And>l. l < length (takeWhile ?P tbl) \<Longrightarrow> ?P (tbl ! l)"
  proof -
    fix l assume l: "l < length (takeWhile ?P tbl)"
    then have "takeWhile ?P tbl ! l \<in> set (takeWhile ?P tbl)" by simp
    then have "?P (takeWhile ?P tbl ! l)" by (auto dest: set_takeWhileD)
    with l show "?P (tbl ! l)" by (simp add: takeWhile_nth)
  qed
  show le: "first_with_addr tbl a \<le> i"
  proof (rule ccontr)
    assume "\<not> first_with_addr tbl a \<le> i"
    then have "i < length (takeWhile ?P tbl)" by (simp add: first_with_addr_def)
    from inP [OF this] assms(2) show False by simp
  qed
  with assms(1) have "length (takeWhile ?P tbl) < length tbl"
    by (simp add: first_with_addr_def)
  from nth_length_takeWhile [OF this] show "n_value (tbl ! first_with_addr tbl a) = a"
    by (simp add: first_with_addr_def)
  fix l assume l: "l < first_with_addr tbl a"
  then show "n_value (tbl ! l) \<noteq> a" using inP [of l] by (simp add: first_with_addr_def)
qed

text \<open>
  Claim C2. In a table sorted by address, a lookup that matches entry \<open>i\<close> and asks
  for a size reports the difference between the entry's address and the least address of
  the table that is strictly greater, whenever the table has such an address. Entries
  that share the matched entry's address are passed over: none of them is the next symbol.
\<close>

theorem bin_find_symbol_size:
  assumes "sorted (map n_value (symbol_table cfg))"
    and "first_match cfg symbol i"
    and "\<exists>e\<in>set (symbol_table cfg). n_value (symbol_table cfg ! i) < n_value e"
  shows "bin_find_symbol cfg symbol True =
           Inr (n_value (symbol_table cfg ! i) + image_offset cfg,
                Some (Min (set (filter (\<lambda>v. n_value (symbol_table cfg ! i) < v)
                                  (map n_value (symbol_table cfg))))
                      - n_value (symbol_table cfg ! i)))"
proof -
  let ?tbl = "symbol_table cfg"
  let ?a = "n_value (?tbl ! i)"
  let ?S = "set (filter (\<lambda>v. ?a < v) (map n_value ?tbl))"
  from assms(2) have i: "i < length ?tbl" by (simp add: first_match_def)
  have mono: "\<And>x y. x \<le> y \<Longrightarrow> y < length ?tbl \<Longrightarrow> n_value (?tbl ! x) \<le> n_value (?tbl ! y)"
    using sorted_nth_mono [OF assms(1)] by (simp add: nth_map)
  from assms(3) obtain l where l: "l < length ?tbl" "?a < n_value (?tbl ! l)"
    by (auto simp: in_set_conv_nth)
  define k where "k = (LEAST k. i < k \<and> k < length ?tbl \<and> n_value (?tbl ! k) \<noteq> ?a)"
  have "i < l"
  proof (rule ccontr)
    assume "\<not> i < l"
    then have "n_value (?tbl ! l) \<le> ?a" using mono [of l i] i by simp
    with l(2) show False by simp
  qed
  with l have ex: "i < l \<and> l < length ?tbl \<and> n_value (?tbl ! l) \<noteq> ?a" by auto
  from LeastI [of "\<lambda>k. i < k \<and> k < length ?tbl \<and> n_value (?tbl ! k) \<noteq> ?a", OF ex]
  have k: "i < k" "k < length ?tbl" "n_value (?tbl ! k) \<noteq> ?a" by (simp_all add: k_def)
  have before: "\<And>x. i < x \<Longrightarrow> x < k \<Longrightarrow> n_value (?tbl ! x) = ?a"
  proof (rule ccontr)
    fix x assume x: "i < x" "x < k" "n_value (?tbl ! x) \<noteq> ?a"
    with k(2) have "i < x \<and> x < length ?tbl \<and> n_value (?tbl ! x) \<noteq> ?a" by simp
    then have "k \<le> x" unfolding k_def by (rule Least_le)
    with x(2) show False by simp
  qed
  have scan: "next_entry_scan ?tbl i 1 = Inr (?tbl ! k)"
    using k before by (intro next_entry_scan_found) simp_all
  from mono [of i k] k have gt: "?a < n_value (?tbl ! k)" by simp
  have "Min ?S = n_value (?tbl ! k)"
  proof (rule Min_eqI)
    show "finite ?S" by simp
    show "n_value (?tbl ! k) \<in> ?S" using k(2) gt by (auto simp: in_set_conv_nth intro!: image_eqI)
    fix v assume "v \<in> ?S"
    then obtain x where x: "x < length ?tbl" "v = n_value (?tbl ! x)" "?a < v"
      by (auto simp: in_set_conv_nth)
    have "k \<le> x"
    proof (rule ccontr)
      assume nk: "\<not> k \<le> x"
      show False
      proof (cases "i < x")
        case True
        with nk before [of x] x show ?thesis by simp
      next
        case False
        with mono [of x i] i x show ?thesis by simp
      qed
    qed
    with mono [of k x] x show "n_value (?tbl ! k) \<le> v" by simp
  qed
  with find_symbol_hit [OF assms(2), of True] scan show ?thesis by simp
qed


lemmas cfg_eval =
  ex_cfg_def ex_pool_def first_match_def symbol_absent_def name_matches_def
  get_symtab_string_def c_string_at_def c_str_def first_with_addr_def

lemma all_less_two: "(\<forall>k<2::nat. P k) \<longleftrightarrow> P 0 \<and> P 1"
  by (auto simp: less_2_cases_iff)

lemma ex_first_match:
  "first_match ex_cfg ''alloc'' 0" "first_match ex_cfg ''alias'' 1" "first_match ex_cfg ''next'' 2"
  by (simp_all add: cfg_eval all_less_two)

text \<open>
  The theorem at the example table: the alias of \<open>_alloc\<close> sits right after it at the
  same address, and the size is the distance to \<open>_next\<close>.
\<close>

theorem bin_find_symbol_size_witness:
  "bin_find_symbol ex_cfg ''alloc'' True = Inr (0x101000, Some 0x40) \<and>
   n_value (symbol_table ex_cfg ! 1) = n_value (symbol_table ex_cfg ! 0)"
proof -
  have s: "sorted (map n_value (symbol_table ex_cfg))" by (simp add: ex_cfg_def)
  have g: "\<exists>e\<in>set (symbol_table ex_cfg). n_value (symbol_table ex_cfg ! 0) < n_value e"
    by (simp add: ex_cfg_def)
  from bin_find_symbol_size [OF s ex_first_match(1) g] show ?thesis
    by (simp add: ex_cfg_def)
qed

text \<open>
  Claim C3 fails on the code. The scan for the next entry has no bound: a lookup with a
  size that matches the last of the three entries reads \<^verbatim>\<open>symbol_table[3]\<close>.
\<close>

theorem bin_find_symbol_scan_out_of_bounds:
  "length (symbol_table ex_cfg) = 3 \<and>
   bin_find_symbol ex_cfg ''next'' False = Inr (0x101040, None) \<and>
   bin_find_symbol ex_cfg ''next'' True = Inl OutOfBounds"
  by (simp add: find_symbol_hit [OF ex_first_match(3)] next_entry_scan.simps)
     (simp add: ex_cfg_def)

text \<open>
  The round trip does not give back every name: \<open>alias\<close> resolves to the address it
  shares with \<open>_alloc\<close>, and the address resolves to the first entry that has it.
\<close>

theorem round_trip_returns_alias:
  "bin_find_symbol ex_cfg ''alias'' False = Inr (0x101000, None) \<and>
   bin_find_symbol_name ex_cfg 0x101000 = Inr (Some 2) \<and>
   c_string_at (string_table ex_cfg) 2 = Some ''alloc'' \<and>
   ''alloc'' \<noteq> ''alias''"
  by (simp add: find_symbol_hit [OF ex_first_match(2)] bin_find_symbol_name_def
        bin_find_symbol_name_loop.simps)
     (simp add: cfg_eval)

text \<open>
  Claim C5, as amended. A lookup of a name that matches entry \<open>i\<close> returns that
  entry's address plus the image offset; looking that address up gives the name pointer
  of the first entry of the table with the same address; and the name of entry \<open>i\<close>
  itself, past its one-byte prefix, is the name that was looked up. So the round trip
  gives the original name back when no earlier entry shares the address.
\<close>

theorem find_symbol_name_round_trip:
  assumes "first_match cfg symbol i"
  shows "bin_find_symbol cfg symbol False =
           Inr (n_value (symbol_table cfg ! i) + image_offset cfg, None) \<and>
         bin_find_symbol_name cfg (n_value (symbol_table cfg ! i) + image_offset cfg) =
           Inr (Some (unat (n_strx (symbol_table cfg !
                  first_with_addr (symbol_table cfg) (n_value (symbol_table cfg ! i)))) + 1)) \<and>
         c_string_at (string_table cfg) (unat (n_strx (symbol_table cfg ! i)) + 1) =
           Some (c_str symbol)"
proof -
  let ?tbl = "symbol_table cfg"
  let ?a = "n_value (?tbl ! i)"
  let ?k = "first_with_addr ?tbl ?a"
  from assms have i: "i < length ?tbl" and hit: "name_matches cfg symbol (?tbl ! i) = Inr True"
    and miss: "\<And>l. l < i \<Longrightarrow> name_matches cfg symbol (?tbl ! l) = Inr False"
    by (simp_all add: first_match_def)
  note k = first_with_addr_props [OF i refl]
  have str: "\<And>l. l \<le> i \<Longrightarrow>
      get_symtab_string cfg (n_strx (?tbl ! l)) = Inr (unat (n_strx (?tbl ! l)))"
  proof -
    fix l assume "l \<le> i"
    then consider "l = i" | "l < i" by linarith
    then show "get_symtab_string cfg (n_strx (?tbl ! l)) = Inr (unat (n_strx (?tbl ! l)))"
      using hit miss by cases (auto intro: name_matches_string)
  qed
  have "bin_find_symbol_name_loop cfg (?a + image_offset cfg) 0 =
          bin_find_symbol_name_loop cfg (?a + image_offset cfg) ?k"
  proof (rule name_loop_skip)
    show "0 \<le> ?k" by simp
    fix l assume "0 \<le> l" "l < ?k"
    with k(1) k(3) [of l] i str [of l]
    show "l < length ?tbl \<and>
          get_symtab_string cfg (n_strx (?tbl ! l)) = Inr (unat (n_strx (?tbl ! l))) \<and>
          n_value (?tbl ! l) + image_offset cfg \<noteq> ?a + image_offset cfg"
      by simp
  qed
  also have "\<dots> = Inr (Some (unat (n_strx (?tbl ! ?k)) + 1))"
    using k(1,2) i str [of ?k] by (intro name_loop_hit) simp_all
  finally have ret: "bin_find_symbol_name cfg (?a + image_offset cfg) =
      Inr (Some (unat (n_strx (?tbl ! ?k)) + 1))"
    using i by (auto simp: bin_find_symbol_name_def)
  from find_symbol_hit [OF assms, of False] ret name_matches_True [OF hit]
  show ?thesis by simp
qed

text \<open>
  The theorem at the example table, for the name \<open>next\<close>, whose address no other
  entry has.
\<close>

theorem find_symbol_name_round_trip_witness:
  "bin_find_symbol ex_cfg ''next'' False = Inr (0x101040, None) \<and>
   bin_find_symbol_name ex_cfg 0x101040 = Inr (Some 16) \<and>
   c_string_at (string_table ex_cfg) 16 = Some ''next''"
  using find_symbol_name_round_trip [OF ex_first_match(3)]
  by (simp add: cfg_eval)

text \<open>
  The scan for the next entry runs out of the table whenever every entry
  after the matched one has the matched entry's address; the last entry is one case.
\<close>

theorem bin_find_symbol_unbounded_scan:
  assumes "first_match cfg symbol i"
    and "\<forall>l<length (symbol_table cfg). i < l \<longrightarrow>
           n_value (symbol_table cfg ! l) = n_value (symbol_table cfg ! i)"
  shows "bin_find_symbol cfg symbol True = Inl OutOfBounds"
proof -
  from assms(2) have "next_entry_scan (symbol_table cfg) i 1 = Inl OutOfBounds"
    by (intro next_entry_scan_out_of_bounds) simp
  with find_symbol_hit [OF assms(1), of True] show ?thesis by simp
qed

text \<open>
  The theorem at the example table cut down to \<open>_alloc\<close> and its alias.
\<close>

theorem bin_find_symbol_unbounded_scan_witness:
  "bin_find_symbol (ex_cfg\<lparr>symbol_table := take 2 (symbol_table ex_cfg)\<rparr>) ''alloc'' True
     = Inl OutOfBounds"
proof -
  let ?cfg = "ex_cfg\<lparr>symbol_table := take 2 (symbol_table ex_cfg)\<rparr>"
  have fm: "first_match ?cfg ''alloc'' 0" by (simp add: cfg_eval)
  have len: "length (symbol_table ?cfg) = 2" by (simp add: ex_cfg_def)
  have same: "\<forall>l<length (symbol_table ?cfg). 0 < l \<longrightarrow>
           n_value (symbol_table ?cfg ! l) = n_value (symbol_table ?cfg ! 0)"
    unfolding len all_less_two by (simp add: ex_cfg_def)
  from bin_find_symbol_unbounded_scan [OF fm same] show ?thesis .
qed


section \<open>The scanner\<close>

lemma suffix_drop:
  "suffix xs ys \<longleftrightarrow> length xs \<le> length ys \<and> drop (length ys - length xs) ys = xs"
proof
  assume "suffix xs ys"
  then obtain zs where "ys = zs @ xs" by (auto simp: suffix_def)
  then show "length xs \<le> length ys \<and> drop (length ys - length xs) ys = xs" by simp
next
  assume a: "length xs \<le> length ys \<and> drop (length ys - length xs) ys = xs"
  have "ys = take (length ys - length xs) ys @ drop (length ys - length xs) ys" by simp
  with a have "ys = take (length ys - length xs) ys @ xs" by simp
  then show "suffix xs ys" unfolding suffix_def by blast
qed

lemma should_update_stub_table_iff:
  "should_update_stub_table env a \<longleftrightarrow>
     (\<exists>dli_fname. dladdr env a = Some dli_fname \<and>
        (suffix ''bundle'' dli_fname \<or> suffix ''libruby.dylib'' dli_fname))"
proof (cases "dladdr env a")
  case None
  then show ?thesis by (simp add: should_update_stub_table_def)
next
  case (Some f)
  have lb: "length ''bundle'' = 6" and lr: "length ''libruby.dylib'' = 13" by simp_all
  have b: "suffix ''bundle'' f \<longleftrightarrow> 6 \<le> length f \<and> drop (length f - 6) f = ''bundle''"
    using suffix_drop [of "''bundle''" f] unfolding lb .
  have r: "suffix ''libruby.dylib'' f \<longleftrightarrow>
             13 \<le> length f \<and> drop (length f - 13) f = ''libruby.dylib''"
    using suffix_drop [of "''libruby.dylib''" f] unfolding lr .
  show ?thesis by (simp add: should_update_stub_table_def Some Let_def b r)
qed

text \<open>The scanner reads the list of images only in its outermost loop.\<close>

lemma inline_loop_env_images:
  "inline_loop (env\<lparr>images := imgs\<rparr>) t tr s len c ret m = inline_loop env t tr s len c ret m"
proof (induction "len - c" arbitrary: c ret m)
  case 0
  then show ?case by (simp add: inline_loop.simps [of _ t tr s len c])
next
  case (Suc d)
  then have lt: "c < len" and d: "d = len - (c + 1)" by simp_all
  obtain r m' where a: "arch_insert_st1_tramp env m (s + c) t tr = (r, m')"
    by (cases "arch_insert_st1_tramp env m (s + c) t tr")
  from Suc.hyps(1) [OF d] lt a show ?case
    by (simp add: inline_loop.simps [of _ t tr s len c])
qed

lemma update_mach_section_env_images:
  "update_mach_section (env\<lparr>images := imgs\<rparr>) hdr sect sl t tr m =
   update_mach_section env hdr sect sl t tr m"
  by (simp add: update_mach_section_def should_update_stub_table_def inline_loop_env_images
        Let_def split: prod.split)

lemma section_loop_env_images:
  "section_loop (env\<lparr>images := imgs\<rparr>) hdr sl t tr sects ret m =
   section_loop env hdr sl t tr sects ret m"
  by (induction sects arbitrary: ret m)
     (simp_all add: update_mach_section_env_images split: prod.split)

lemma load_command_loop_env_images:
  "load_command_loop (env\<lparr>images := imgs\<rparr>) hdr sl t tr lcs ret m =
   load_command_loop env hdr sl t tr lcs ret m"
proof (induction lcs arbitrary: ret m)
  case Nil
  then show ?case by simp
next
  case (Cons lc lcs)
  then show ?case by (cases lc) (simp_all add: section_loop_env_images split: prod.split)
qed

lemma update_bin_for_mach_header_env_images:
  "update_bin_for_mach_header (env\<lparr>images := imgs\<rparr>) img t tr m =
   update_bin_for_mach_header env img t tr m"
  by (simp add: update_bin_for_mach_header_def load_command_loop_env_images)

lemma all_less_three: "(\<forall>k<3::nat. P k) \<longleftrightarrow> P 0 \<and> P 1 \<and> P 2"
proof -
  have "\<And>k::nat. k < 3 \<longleftrightarrow> k = 0 \<or> k = 1 \<or> k = 2" by auto
  then show ?thesis by auto
qed

lemmas scan_eval =
  ex_env_def bin_update_image_def update_bin_for_mach_header_def update_mach_section_def
  should_update_stub_table_def inline_loop.simps

text \<open>
  The allow-list test of the code. For a section whose name begins with \<open>__symbol_stub\<close>, the
  stub-table patcher runs exactly when \<^verbatim>\<open>dladdr\<close> names, for the section's address, a
  file whose path ends in the characters \<open>bundle\<close> or in \<open>libruby.dylib\<close>; for
  every other image the section is left alone: the result is -1 and the memory is
  unchanged.
\<close>

theorem stub_patcher_gated:
  assumes "take 13 (sectname sect) = ''__symbol_stub''"
  shows "update_mach_section env hdr sect sl trampee_addr tramp m =
     (if \<exists>dli_fname.
           dladdr env (fst (getsectdatafromheader_64 env hdr ''__TEXT'' (sectname sect)) + sl)
             = Some dli_fname \<and>
           (suffix ''bundle'' dli_fname \<or> suffix ''libruby.dylib'' dli_fname)
      then
        (case update_dyld_stub_table m
                (unat (fst (getsectdatafromheader_64 env hdr ''__TEXT'' (sectname sect)) + sl))
                (unat (sect_size sect)) trampee_addr tramp of
           (r, m') \<Rightarrow> (if r = 0 then 0 else - 1, m'))
      else (- 1, m))"
proof -
  obtain data len where g: "getsectdatafromheader_64 env hdr ''__TEXT'' (sectname sect) = (data, len)"
    by (cases "getsectdatafromheader_64 env hdr ''__TEXT'' (sectname sect)")
  show ?thesis
    unfolding update_mach_section_def g
    by (auto simp add: assms should_update_stub_table_iff Let_def)
qed

text \<open>
  Claim C7 fails on the code. The comment above \<^verbatim>\<open>should_update_stub_table\<close> admits the
  files that match \<^verbatim>\<open>"libruby.dylib"\<close> or \<^verbatim>\<open>"*.bundle"\<close>, and so does the claim; the code
  compares the last six characters of the path with \<^verbatim>\<open>"bundle"\<close>, without the dot. The
  stub table of an image at \<open>/tmp/notabundle\<close>, which is neither a \<open>.bundle\<close>
  object nor \<open>libruby.dylib\<close>, is patched: the call returns 0, and the pointer slot of
  the first entry, which held the target, holds the trampoline's address.
\<close>

theorem stub_patcher_takes_bundle_suffix:
  "\<not> suffix ''.bundle'' ''/tmp/notabundle'' \<and>
   \<not> suffix ''libruby.dylib'' ''/tmp/notabundle'' \<and>
   fst (update_mach_section (ex_env\<lparr>dladdr := \<lambda>a. Some ''/tmp/notabundle''\<rparr>) 0x5000
          \<lparr>sectname = ''__symbol_stub1'', sect_size = 12\<rparr> 0 0x1000 \<lparr>addr = 0x9000\<rparr> ex_stub_mem)
     = 0 \<and>
   read_ptr (snd (update_mach_section (ex_env\<lparr>dladdr := \<lambda>a. Some ''/tmp/notabundle''\<rparr>) 0x5000
          \<lparr>sectname = ''__symbol_stub1'', sect_size = 12\<rparr> 0 0x1000 \<lparr>addr = 0x9000\<rparr> ex_stub_mem))
     116 = 0x9000 \<and>
   read_ptr ex_stub_mem 116 = 0x1000"
  by (simp add: suffix_drop) (simp add: scan_eval, simp add: ex_stub_mem_def stub_eval)

text \<open>
  Claim C6. Whatever the environment (the allow-list answers of \<^verbatim>\<open>dladdr\<close> included),
  \<^verbatim>\<open>bin_update_image\<close> gives the same result and the same memory as on the process
  without the images whose header is \<^verbatim>\<open>_mh_bundle_header\<close>: the load commands and
  sections of the module's own image reach neither patcher.
\<close>

theorem own_image_skipped:
  "bin_update_image cfg env trampee tramp m =
   bin_update_image cfg
     (env\<lparr>images := filter (\<lambda>img. header img \<noteq> mh_bundle_header env) (images env)\<rparr>)
     trampee tramp m"
proof -
  let ?env' = "env\<lparr>images := filter (\<lambda>img. header img \<noteq> mh_bundle_header env) (images env)\<rparr>"
  have loop: "image_loop env t tramp imgs ret m =
      image_loop ?env' t tramp (filter (\<lambda>img. header img \<noteq> mh_bundle_header env) imgs) ret m"
    for t imgs ret m
    by (induction imgs arbitrary: ret m)
       (simp_all add: update_bin_for_mach_header_env_images split: prod.split)
  show ?thesis
    by (simp add: bin_update_image_def loop [of _ "images env"] split: sum.split)
qed


text \<open>
  The theorem at a stub section holding an entry for the target: in a system library it is
  not patched, in \<open>libruby.dylib\<close> it is.
\<close>

theorem stub_patcher_gated_witness:
  "update_mach_section (ex_env\<lparr>dladdr := \<lambda>a. Some ''/usr/lib/libSystem.B.dylib''\<rparr>) 0x5000
     \<lparr>sectname = ''__symbol_stub1'', sect_size = 12\<rparr> 0 0x1000 \<lparr>addr = 0x9000\<rparr> ex_stub_mem
     = (- 1, ex_stub_mem) \<and>
   fst (update_mach_section ex_env 0x5000
     \<lparr>sectname = ''__symbol_stub1'', sect_size = 12\<rparr> 0 0x1000 \<lparr>addr = 0x9000\<rparr> ex_stub_mem)
     = 0"
proof -
  have s: "take 13 (sectname \<lparr>sectname = ''__symbol_stub1'', sect_size = 12\<rparr>) = ''__symbol_stub''"
    by simp
  have "update_mach_section (ex_env\<lparr>dladdr := \<lambda>a. Some ''/usr/lib/libSystem.B.dylib''\<rparr>) 0x5000
     \<lparr>sectname = ''__symbol_stub1'', sect_size = 12\<rparr> 0 0x1000 \<lparr>addr = 0x9000\<rparr> ex_stub_mem
     = (- 1, ex_stub_mem)"
    using stub_patcher_gated [OF s, of "ex_env\<lparr>dladdr := \<lambda>a. Some ''/usr/lib/libSystem.B.dylib''\<rparr>"
        "0x5000" 0 "0x1000" "\<lparr>addr = 0x9000\<rparr>" ex_stub_mem]
    by (simp add: ex_env_def suffix_drop)
  moreover have "fst (update_mach_section ex_env 0x5000
     \<lparr>sectname = ''__symbol_stub1'', sect_size = 12\<rparr> 0 0x1000 \<lparr>addr = 0x9000\<rparr> ex_stub_mem)
     = 0"
    by (simp add: scan_eval) (simp add: ex_stub_mem_def stub_eval)
  ultimately show ?thesis by simp
qed

text \<open>
  The theorem for a process that holds the module's own image only: the image has an
  allowed path and a stub entry for the target, and nothing is patched. The same image is
  patched when another header is taken for the module's.
\<close>

theorem own_image_skipped_witness:
  "bin_update_image (ex_cfg\<lparr>image_offset := 0\<rparr>) (ex_env\<lparr>images := take 1 (images ex_env)\<rparr>)
     ''alloc'' \<lparr>addr = 0x9000\<rparr> ex_stub_mem = Inr (- 1, ex_stub_mem) \<and>
   (case bin_update_image (ex_cfg\<lparr>image_offset := 0\<rparr>)
           (ex_env\<lparr>images := take 1 (images ex_env), mh_bundle_header := 0x5000\<rparr>)
           ''alloc'' \<lparr>addr = 0x9000\<rparr> ex_stub_mem of
      Inl err \<Rightarrow> False
    | Inr (ret, m') \<Rightarrow> ret = 0 \<and> read_ptr m' 116 = 0x9000)"
proof -
  have fm: "first_match (ex_cfg\<lparr>image_offset := 0\<rparr>) ''alloc'' 0"
    by (simp add: cfg_eval)
  have f: "bin_find_symbol (ex_cfg\<lparr>image_offset := 0\<rparr>) ''alloc'' False = Inr (0x1000, None)"
    by (simp add: find_symbol_hit [OF fm]) (simp add: ex_cfg_def)
  have "bin_update_image (ex_cfg\<lparr>image_offset := 0\<rparr>) (ex_env\<lparr>images := take 1 (images ex_env)\<rparr>)
     ''alloc'' \<lparr>addr = 0x9000\<rparr> ex_stub_mem = Inr (- 1, ex_stub_mem)"
    using own_image_skipped [of "ex_cfg\<lparr>image_offset := 0\<rparr>"
        "ex_env\<lparr>images := take 1 (images ex_env)\<rparr>" "''alloc''" "\<lparr>addr = 0x9000\<rparr>" ex_stub_mem]
    by (simp add: ex_env_def) (simp add: bin_update_image_def f)
  moreover have "case bin_update_image (ex_cfg\<lparr>image_offset := 0\<rparr>)
           (ex_env\<lparr>images := take 1 (images ex_env), mh_bundle_header := 0x5000\<rparr>)
           ''alloc'' \<lparr>addr = 0x9000\<rparr> ex_stub_mem of
      Inl err \<Rightarrow> False
    | Inr (ret, m') \<Rightarrow> ret = 0 \<and> read_ptr m' 116 = 0x9000"
    by (simp add: scan_eval f, simp add: ex_stub_mem_def stub_eval)
  ultimately show ?thesis by simp
qed

text \<open>
  Claim C1 fails on the code. The name \<open>missing\<close> is not in the table, so
  \<^verbatim>\<open>bin_find_symbol\<close> returns \<^verbatim>\<open>NULL\<close>; \<^verbatim>\<open>bin_update_image\<close> does not test
  for it and scans the images with the target \<^verbatim>\<open>NULL\<close>. The second stub entry of the
  example has zero opcode bytes, for which \<^verbatim>\<open>get_dyld_stub_target\<close> answers
  \<^verbatim>\<open>NULL\<close> as well: the entry counts as a match, the trampoline's address is written
  at the address its displacement gives, and the call returns 0.
\<close>

theorem absent_target_still_patches:
  "bin_find_symbol ex_cfg ''missing'' False = Inr (0, None) \<and>
   (case bin_update_image ex_cfg ex_env ''missing'' \<lparr>addr = 0x9000\<rparr> ex_stub_mem of
      Inl err \<Rightarrow> False
    | Inr (ret, m') \<Rightarrow>
        ret = 0 \<and> m' 113 = 0x90 \<and> ex_stub_mem 113 = 0 \<and>
        \<not> (ex_stub_mem 106 = 0xff \<and> ex_stub_mem 107 = 0x25))"
proof -
  have len: "length (symbol_table ex_cfg) = 3" by (simp add: ex_cfg_def)
  have a: "symbol_absent ex_cfg ''missing''"
    unfolding symbol_absent_def len all_less_three
    by (simp add: ex_cfg_def ex_pool_def name_matches_def get_symtab_string_def)
  have f: "bin_find_symbol ex_cfg ''missing'' False = Inr (0, None)"
    using a by (rule find_symbol_absent)
  show ?thesis
    by (simp add: f) (simp add: scan_eval f, simp add: ex_stub_mem_def stub_eval)
qed

text \<open>
  For a name that is not in the table, \<^verbatim>\<open>bin_update_image\<close> is the scan
  of all images with the target \<^verbatim>\<open>NULL\<close>.
\<close>

theorem bin_update_image_absent:
  assumes "symbol_absent cfg trampee"
  shows "bin_update_image cfg env trampee tramp m =
           Inr (image_loop env 0 tramp (images env) (- 1) m)"
  using assms by (simp add: bin_update_image_def find_symbol_absent)

text \<open>
  The theorem at the example table and process.
\<close>

theorem bin_update_image_absent_witness:
  "bin_update_image ex_cfg ex_env ''missing'' \<lparr>addr = 0x9000\<rparr> (\<lambda>_. 0) =
     Inr (image_loop ex_env 0 \<lparr>addr = 0x9000\<rparr> (images ex_env) (- 1) (\<lambda>_. 0))"
proof -
  have len: "length (symbol_table ex_cfg) = 3" by (simp add: ex_cfg_def)
  have a: "symbol_absent ex_cfg ''missing''"
    unfolding symbol_absent_def len all_less_three
    by (simp add: ex_cfg_def ex_pool_def name_matches_def get_symtab_string_def)
  from bin_update_image_absent [OF a] show ?thesis .
qed

text \<open>
  The end-to-end scenario: one stub entry whose pointer slot holds the address
  of \<open>alloc_fn\<close>, \<open>0x1000\<close>, and a trampoline at \<open>0x9000\<close>. After
  \<^verbatim>\<open>bin_update_image\<close> the slot holds \<open>0x9000\<close> and the result is 0.
\<close>

theorem end_to_end_stub_redirect:
  "bin_find_symbol e2e_cfg ''alloc_fn'' False = Inr (0x1000, None) \<and>
   read_ptr ex_stub_mem 116 = 0x1000 \<and>
   (case bin_update_image e2e_cfg e2e_env ''alloc_fn'' \<lparr>addr = 0x9000\<rparr> ex_stub_mem of
      Inl err \<Rightarrow> False
    | Inr (ret, m') \<Rightarrow> ret = 0 \<and> read_ptr m' 116 = 0x9000)"
proof -
  have fm: "first_match e2e_cfg ''alloc_fn'' 0"
    by (simp add: e2e_cfg_def first_match_def name_matches_def get_symtab_string_def)
  have f: "bin_find_symbol e2e_cfg ''alloc_fn'' False = Inr (0x1000, None)"
    by (simp add: find_symbol_hit [OF fm]) (simp add: e2e_cfg_def)
  show ?thesis
    by (simp add: f)
       (simp add: e2e_env_def bin_update_image_def update_bin_for_mach_header_def
          update_mach_section_def should_update_stub_table_def f,
        simp add: ex_stub_mem_def stub_eval)
qed


section \<open>The allocator\<close>

lemma stride_bound:
  fixes j p :: nat
  assumes "0 < p"
  shows "j * p < 2147483647 - p \<longleftrightarrow> j < (2147483647 - 1) div p"
proof -
  have "j < (2147483647 - 1) div p \<longleftrightarrow> Suc j \<le> 2147483646 div p"
    by (simp add: Suc_le_eq)
  also have "\<dots> \<longleftrightarrow> Suc j * p \<le> 2147483646"
    using assms by (simp only: less_eq_div_iff_mult_less_eq)
  also have "\<dots> \<longleftrightarrow> j * p < 2147483647 - p" by auto
  finally show ?thesis by simp
qed

lemma allocate_loop_strides:
  fixes pagesize :: "64 word"
  assumes pos: "0 < pagesize" and le: "pagesize \<le> INT_MAX"
  shows "j \<le> (2147483647 - 1) div unat pagesize \<Longrightarrow>
     bin_allocate_page_loop mmap pagesize (of_nat j * pagesize) k m =
       Some (case first_mapping mmap pagesize k
                    (map (\<lambda>j. j * unat pagesize) [j..<(2147483647 - 1) div unat pagesize]) of
               (Some a, k') \<Rightarrow>
                 (a, k', \<lambda>x. if unat a \<le> x \<and> x < unat a + unat pagesize then 0x90 else m x)
             | (None, k') \<Rightarrow> (0, k', m))"
proof (induction "(2147483647 - 1) div unat pagesize - j" arbitrary: j k)
  let ?p = "unat pagesize"
  let ?N = "(2147483647 - 1) div ?p"
  have p0: "0 < ?p" using pos by (simp add: unat_gt_0 word_neq_0_conv)
  have pm: "?p \<le> 2147483647" using le by (simp add: INT_MAX_def word_le_nat_alt)
  have sub: "unat (INT_MAX - pagesize) = 2147483647 - ?p"
    using le by (simp add: unat_sub INT_MAX_def)
  have small: "\<And>j. j \<le> ?N \<Longrightarrow> j * ?p \<le> 2147483646"
  proof -
    fix j assume "j \<le> ?N"
    then have "j * ?p \<le> ?N * ?p" by simp
    also have "\<dots> \<le> 2147483646" by simp
    finally show "j * ?p \<le> 2147483646" .
  qed
  have hint: "\<And>j. (of_nat (j * ?p) :: 64 word) = of_nat j * pagesize" by simp
  have un: "\<And>j. j \<le> ?N \<Longrightarrow> unat (of_nat j * pagesize) = j * ?p"
  proof -
    fix j assume "j \<le> ?N"
    from small [OF this] have "j * ?p < 2 ^ 64" by simp
    then have "unat (of_nat (j * ?p) :: 64 word) = j * ?p" by (simp only: unat_of_nat) simp
    then show "unat (of_nat j * pagesize) = j * ?p" by (simp only: hint)
  qed
  have cond: "\<And>j. j \<le> ?N \<Longrightarrow> of_nat j * pagesize < INT_MAX - pagesize \<longleftrightarrow> j < ?N"
    using stride_bound [OF p0] by (simp add: word_less_nat_alt un sub)
  {
    case 0
    then have j: "j = ?N" by simp
    with cond [of j] show ?case
      by (subst bin_allocate_page_loop.simps) simp
  next
    case (Suc d)
    then have lt: "j < ?N" by simp
    then have c: "of_nat j * pagesize < INT_MAX - pagesize" using cond [of j] by simp
    from lt have l: "[j..<?N] = j # [Suc j..<?N]" by (rule upt_conv_Cons)
    have nx: "of_nat j * pagesize + pagesize = of_nat (Suc j) * pagesize"
      by (simp add: algebra_simps)
    obtain ret k' where mm: "mmap k (of_nat j * pagesize) pagesize = (ret, k')"
      by (cases "mmap k (of_nat j * pagesize) pagesize")
    show ?case
    proof (cases "ret = MAP_FAILED")
      case False
      with c mm l show ?thesis
        by (subst bin_allocate_page_loop.simps) (simp add: memset_def del: upt_Suc)
    next
      case True
      from Suc.hyps(2) lt have d: "d = ?N - Suc j" by simp
      from lt have "Suc j \<le> ?N" by simp
      note ih = Suc.hyps(1) [OF d this, of k']
      with True c mm l show ?thesis
        by (subst bin_allocate_page_loop.simps) (simp add: nx del: upt_Suc of_nat_Suc)
    qed
  }
qed


lemma stride_hints_nth:
  "n < length (stride_hints p) \<Longrightarrow> stride_hints p ! n = Suc n * p"
  by (simp add: stride_hints_def)

text \<open>
  Claim C8. For a page size that is positive and at most \<^verbatim>\<open>INT_MAX\<close>,
  \<^verbatim>\<open>bin_allocate_page\<close> returns, and what it does is the search of the specification:
  it asks \<^verbatim>\<open>mmap\<close> for the candidate addresses in order, each once, and stops at the
  first mapping granted; it fills that mapping's page with \<open>0x90\<close> and returns its
  address; it returns \<^verbatim>\<open>NULL\<close>, with the memory as it was, when every candidate
  was refused. The \<open>n\<close>-th candidate is one page size plus \<open>n\<close> page sizes, so
  the candidates start one page above zero and go up by one page; zero is not among
  them and none occurs twice.
\<close>

theorem bin_allocate_page_search:
  fixes pagesize :: "64 word"
  assumes "0 < pagesize" and "pagesize \<le> INT_MAX"
  shows "bin_allocate_page mmap pagesize k m =
           Some (case first_mapping mmap pagesize k (stride_hints (unat pagesize)) of
                   (Some a, k') \<Rightarrow>
                     (a, k', \<lambda>x. if unat a \<le> x \<and> x < unat a + unat pagesize then 0x90 else m x)
                 | (None, k') \<Rightarrow> (0, k', m)) \<and>
         (\<forall>n<length (stride_hints (unat pagesize)).
            stride_hints (unat pagesize) ! n = unat pagesize + n * unat pagesize) \<and>
         0 \<notin> set (stride_hints (unat pagesize)) \<and>
         distinct (stride_hints (unat pagesize))"
proof -
  let ?p = "unat pagesize"
  have p0: "0 < ?p" using assms(1) by (simp add: unat_gt_0 word_neq_0_conv)
  have pm: "?p \<le> 2147483647" using assms(2) by (simp add: INT_MAX_def word_le_nat_alt)
  then have "2147483646 div ?p \<noteq> 0 \<or> ?p = 2147483647"
    using p0 by (auto simp: div_eq_0_iff)
  have one: "1 \<le> (2147483647 - 1) div ?p \<or> [1..<(2147483647 - 1) div ?p] = []" by auto
  have run: "bin_allocate_page mmap pagesize k m =
           Some (case first_mapping mmap pagesize k (stride_hints ?p) of
                   (Some a, k') \<Rightarrow>
                     (a, k', \<lambda>x. if unat a \<le> x \<and> x < unat a + ?p then 0x90 else m x)
                 | (None, k') \<Rightarrow> (0, k', m))"
  proof (cases "1 \<le> (2147483647 - 1) div ?p")
    case True
    from allocate_loop_strides [OF assms True, of mmap k m] show ?thesis
      by (simp add: bin_allocate_page_def stride_hints_def)
  next
    case False
    then have z: "(2147483647 - 1) div ?p = 0" by simp
    then have "\<not> (1::nat) * ?p < 2147483647 - ?p" using stride_bound [OF p0, of 1] by simp
    then have "\<not> pagesize < INT_MAX - pagesize"
      using assms(2) by (simp add: word_less_nat_alt unat_sub INT_MAX_def)
    then show ?thesis using z
      by (subst bin_allocate_page_def, subst bin_allocate_page_loop.simps)
         (simp add: stride_hints_def)
  qed
  have nth: "\<forall>n<length (stride_hints ?p). stride_hints ?p ! n = ?p + n * ?p"
    by (simp add: stride_hints_nth)
  have nz: "0 \<notin> set (stride_hints ?p)" using p0 by (auto simp: stride_hints_def)
  have inj: "inj_on (\<lambda>j. j * ?p) (set [1..<(2147483647 - 1) div ?p])"
    using p0 by (auto simp: inj_on_def)
  have di: "distinct (stride_hints ?p)"
    unfolding stride_hints_def using inj by (simp add: distinct_map)
  from run nth nz di show ?thesis by blast
qed

text \<open>
  The theorem for a page size of \<open>0x20000000\<close>, which leaves two candidates, and a
  kernel that refuses the first and grants the second.
\<close>

theorem bin_allocate_page_search_witness:
  "bin_allocate_page ex_mmap 0x20000000 0 (\<lambda>_. 0) =
     Some (0x40000000, 2, \<lambda>x. if 0x40000000 \<le> x \<and> x < 0x60000000 then 0x90 else 0) \<and>
   stride_hints 0x20000000 = [0x20000000, 0x40000000]"
proof -
  have p: "(0 :: 64 word) < 0x20000000" and q: "(0x20000000 :: 64 word) \<le> INT_MAX"
    by (simp_all add: INT_MAX_def)
  have h: "stride_hints 0x20000000 = [0x20000000, 0x40000000]"
    by (simp add: stride_hints_def upt_rec)
  from bin_allocate_page_search [OF p q, of ex_mmap 0 "\<lambda>_. 0"] h show ?thesis
    by (simp add: ex_mmap_def MAP_FAILED_def)
qed

section \<open>The extractor\<close>

lemma nlist_cmp_le: "nlist_cmp a b \<le> 0 \<longleftrightarrow> n_value a \<le> n_value b"
  by (auto simp: nlist_cmp_def)

lemma nlist_cmp_less: "nlist_cmp a b < 0 \<longleftrightarrow> n_value a < n_value b"
  by (auto simp: nlist_cmp_def)

lemma nlist_cmp_addresses:
  "n_value a = n_value a' \<Longrightarrow> n_value b = n_value b' \<Longrightarrow> nlist_cmp a b = nlist_cmp a' b'"
  unfolding nlist_cmp_def by (simp only:)

lemma sorted_wrt_nlist_cmp:
  "sorted_wrt (\<lambda>a b. nlist_cmp a b \<le> 0) xs \<longleftrightarrow> sorted (map n_value xs)"
  by (simp add: sorted_map nlist_cmp_le)

lemma mset_insert_before: "mset (insert_before cmp x ys) = add_mset x (mset ys)"
  by (induction ys) simp_all

lemma set_insert_before: "set (insert_before cmp x ys) = insert x (set ys)"
  using mset_insert_before [of cmp x ys, THEN arg_cong, of set_mset] by simp

lemma sorted_insert_before:
  "sorted (map n_value ys) \<Longrightarrow> sorted (map n_value (insert_before nlist_cmp x ys))"
  by (induction ys) (auto simp: nlist_cmp_le set_insert_before)

lemma qsort_keeping_contract: "qsort_contract qsort_keeping"
proof -
  have "mset (qsort_keeping nlist_cmp xs) = mset xs \<and>
        sorted (map n_value (qsort_keeping nlist_cmp xs))" for xs
    by (induction xs) (simp_all add: qsort_keeping_def mset_insert_before sorted_insert_before)
  then show ?thesis by (simp add: qsort_contract_def sorted_wrt_nlist_cmp)
qed

lemma extract_symbol_table_first:
  "extract_symbol_table qsort lcs =
     (case first_symtab lcs of
        None \<Rightarrow> Inl (Errx ''Unable to find LC_SYMTAB'')
      | Some sc \<Rightarrow> Inr (qsort nlist_cmp (file_symtbl sc), file_strtbl sc))"
  by (induction qsort lcs rule: extract_symbol_table.induct) simp_all

lemma length_swap_at [simp]: "length (swap_at xs i j) = length xs"
  by (simp add: swap_at_def)

lemma length_vecswap [simp]: "length (vecswap xs i j r) = length xs"
proof -
  have "length (fold (\<lambda>k ys. swap_at ys (i + k) (j + k)) ks xs) = length xs" for ks
    by (induction ks arbitrary: xs) simp_all
  then show ?thesis by (simp add: vecswap_def)
qed

text \<open>The indices of the partition stay inside the array.\<close>

lemma partition_loop_bounds:
  "partition_loop cmp down xs pa pb pc pd sc = (ys, pa', pb', pc', pd', sc') \<Longrightarrow>
   1 \<le> pa \<Longrightarrow> 1 \<le> pb \<Longrightarrow> pb \<le> n \<Longrightarrow> 0 \<le> pc \<Longrightarrow> pc \<le> n - 1 \<Longrightarrow> pd \<le> n - 1 \<Longrightarrow>
     1 \<le> pa' \<and> pb' \<le> n \<and> 0 \<le> pc' \<and> pd' \<le> n - 1 \<and> length ys = length xs"
proof (induction cmp down xs pa pb pc pd sc rule: partition_loop.induct)
  case (1 cmp down xs pa pb pc pd swap_cnt)
  note unf = partition_loop.simps [of cmp down xs pa pb pc pd swap_cnt]
  show ?case
  proof (cases down)
    case False
    show ?thesis
    proof (cases "pb \<le> pc \<and> cmp (xs ! nat pb) (xs ! 0) \<le> 0")
      case c: True
      show ?thesis
      proof (cases "cmp (xs ! nat pb) (xs ! 0) = 0")
        case True
        with False c "1.prems" unf show ?thesis
          using "1.IH"(1) [OF False c True] by simp
      next
        case ne: False
        with False c "1.prems" unf show ?thesis
          using "1.IH"(2) [OF False c ne] by simp
      qed
    next
      case c: False
      with False "1.prems" unf show ?thesis
        using "1.IH"(3) [OF False c] by simp
    qed
  next
    case True
    then have d: "\<not> \<not> down" by simp
    show ?thesis
    proof (cases "pb \<le> pc \<and> cmp (xs ! nat pc) (xs ! 0) \<ge> 0")
      case c: True
      show ?thesis
      proof (cases "cmp (xs ! nat pc) (xs ! 0) = 0")
        case z: True
        with True c "1.prems" unf show ?thesis
          using "1.IH"(4) [OF d c z] by simp
      next
        case ne: False
        with True c "1.prems" unf show ?thesis
          using "1.IH"(5) [OF d c ne] by simp
      qed
    next
      case c: False
      show ?thesis
      proof (cases "pb > pc")
        case g: True
        with True c "1.prems" unf show ?thesis by simp
      next
        case g: False
        with True c "1.prems" unf show ?thesis
          using "1.IH"(6) [OF d c g] by simp
      qed
    qed
  qed
qed

text \<open>
  Each part handed to a further activation is shorter than the array, so \<^verbatim>\<open>qsort\<close>
  returns, and one unit of fuel more than the number of elements is enough.
\<close>

lemma qsort_round_total:
  assumes again: "\<And>ys. length ys < length xs \<Longrightarrow> again cmp ys \<noteq> None"
  shows "qsort_round again cmp xs \<noteq> None"
proof (cases "length xs < 7")
  case True
  then show ?thesis by (simp add: qsort_round_def)
next
  case False
  let ?n = "length xs"
  obtain ys pa pb pc pd sc where
    p: "partition_loop cmp False (swap_at xs 0 (pivot_index cmp xs)) 1 1 (int ?n - 1) (int ?n - 1) False
          = (ys, pa, pb, pc, pd, sc)"
    by (cases "partition_loop cmp False (swap_at xs 0 (pivot_index cmp xs)) 1 1 (int ?n - 1) (int ?n - 1) False")
  from False have ne: "xs \<noteq> []" by auto
  from ne partition_loop_bounds [OF p, of "int ?n"]
  have b: "1 \<le> pa" "pb \<le> int ?n" "0 \<le> pc" "pd \<le> int ?n - 1" "length ys = ?n"
    by simp_all
  let ?r1 = "nat (min pa (pb - pa))"
  let ?ys1 = "vecswap ys 0 (nat pb - ?r1) ?r1"
  let ?r2 = "nat (min (pd - pc) (int ?n - pd - 1))"
  let ?ys2 = "vecswap ?ys1 (nat pb) (?n - ?r2) ?r2"
  have l: "length (take (nat (pb - pa)) ?ys2) < ?n"
    using b False by simp
  have r: "length (drop (?n - nat (pd - pc)) ?ys2) < ?n"
    using b False by simp
  from again [OF l] obtain left where left: "again cmp (take (nat (pb - pa)) ?ys2) = Some left"
    by auto
  from again [OF r] obtain right where right: "again cmp (drop (?n - nat (pd - pc)) ?ys2) = Some right"
    by auto
  from False p left right show ?thesis
    by (simp add: qsort_round_def Let_def)
qed

lemma qsort_fuel_total: "length xs < fuel \<Longrightarrow> qsort_fuel fuel cmp xs \<noteq> None"
proof (induction fuel arbitrary: xs)
  case 0
  then show ?case by simp
next
  case (Suc fuel)
  have "qsort_round (qsort_fuel fuel) cmp xs \<noteq> None"
  proof (rule qsort_round_total)
    fix ys :: "'a list"
    assume "length ys < length xs"
    with Suc.prems have "length ys < fuel" by simp
    then show "qsort_fuel fuel cmp ys \<noteq> None" by (rule Suc.IH)
  qed
  then show ?case by simp
qed

theorem qsort_bsd_returns: "qsort_fuel (Suc (length xs)) cmp xs = Some (qsort_bsd cmp xs)"
  using qsort_fuel_total [of xs "Suc (length xs)" cmp] by (auto simp: qsort_bsd_def)

text \<open>
  Claim C9, as amended. With a \<^verbatim>\<open>qsort\<close> that keeps its contract, extraction from an
  image that has a symtab command succeeds, and the extracted array is a rearrangement of
  the file's entries in nondecreasing order of address. The comparator is deterministic:
  its answer depends on the two addresses only, and is 0 exactly when they are equal. Two
  extractions of the same input produce the same entry order: the result is determined by
  the symtab command alone. Entries of equal address are not ordered by the comparator,
  and nothing is promised about their order.
\<close>

theorem extract_symbol_table_sorted:
  assumes "qsort_contract qsort" and "first_symtab lcs = Some sc"
  shows "extract_symbol_table qsort lcs = Inr (qsort nlist_cmp (file_symtbl sc), file_strtbl sc) \<and>
         sorted (map n_value (qsort nlist_cmp (file_symtbl sc))) \<and>
         mset (qsort nlist_cmp (file_symtbl sc)) = mset (file_symtbl sc) \<and>
         (\<forall>a b a' b'. n_value a = n_value a' \<and> n_value b = n_value b' \<longrightarrow>
                      nlist_cmp a b = nlist_cmp a' b') \<and>
         (\<forall>a b. nlist_cmp a b = 0 \<longleftrightarrow> n_value a = n_value b) \<and>
         (\<forall>lcs'. first_symtab lcs' = Some sc \<longrightarrow>
                 extract_symbol_table qsort lcs' = extract_symbol_table qsort lcs)"
proof -
  from assms(1) have m: "mset (qsort nlist_cmp (file_symtbl sc)) = mset (file_symtbl sc)"
    and o: "sorted (map n_value (qsort nlist_cmp (file_symtbl sc)))"
    by (simp_all add: qsort_contract_def sorted_wrt_nlist_cmp)
  have e: "extract_symbol_table qsort lcs =
      Inr (qsort nlist_cmp (file_symtbl sc), file_strtbl sc)"
    using assms(2) by (simp add: extract_symbol_table_first)
  have c: "\<forall>a b a' b'. n_value a = n_value a' \<and> n_value b = n_value b' \<longrightarrow>
                      nlist_cmp a b = nlist_cmp a' b'"
    by (intro allI impI, elim conjE) (rule nlist_cmp_addresses)
  have z: "\<forall>a b. nlist_cmp a b = 0 \<longleftrightarrow> n_value a = n_value b"
    by (simp add: nlist_cmp_def)
  have d: "\<forall>lcs'. first_symtab lcs' = Some sc \<longrightarrow>
                 extract_symbol_table qsort lcs' = extract_symbol_table qsort lcs"
    using assms(2) by (simp add: extract_symbol_table_first)
  from e o m c z d show ?thesis by (intro conjI)
qed

text \<open>
  The theorem for a file whose symtab lists \<open>_next\<close> before \<open>_alloc\<close> and
  \<open>_alias\<close>, with a sort that keeps equal entries in order: the extraction, the
  comparator on two pairs of entries with the same addresses, and a second extraction of
  the same symtab found behind another command.
\<close>

theorem extract_symbol_table_sorted_witness:
  "extract_symbol_table qsort_keeping ex_file_cmds =
     Inr ([\<lparr>n_strx = 1, n_value = 0x1000\<rparr>,
           \<lparr>n_strx = 8, n_value = 0x1000\<rparr>,
           \<lparr>n_strx = 15, n_value = 0x1040\<rparr>], ex_pool) \<and>
   nlist_cmp \<lparr>n_strx = 1, n_value = 0x1000\<rparr> \<lparr>n_strx = 15, n_value = 0x1040\<rparr> =
     nlist_cmp \<lparr>n_strx = 8, n_value = 0x1000\<rparr> \<lparr>n_strx = 15, n_value = 0x1040\<rparr> \<and>
   extract_symbol_table qsort_keeping (LC_OTHER # ex_file_cmds) =
     extract_symbol_table qsort_keeping ex_file_cmds"
proof -
  let ?sc = "\<lparr>file_symtbl =
                   [\<lparr>n_strx = 15, n_value = 0x1040\<rparr>,
                    \<lparr>n_strx = 1, n_value = 0x1000\<rparr>,
                    \<lparr>n_strx = 8, n_value = 0x1000\<rparr>],
                 file_strtbl = ex_pool\<rparr>"
  have f: "first_symtab ex_file_cmds = Some ?sc"
    by (simp add: ex_file_cmds_def)
  have f': "first_symtab (LC_OTHER # ex_file_cmds) = Some ?sc"
    by (simp add: ex_file_cmds_def)
  note t = extract_symbol_table_sorted [OF qsort_keeping_contract f]
  note t1 = t [THEN conjunct1]
  note t4 = t [THEN conjunct2, THEN conjunct2, THEN conjunct2, THEN conjunct1, rule_format]
  note t6 = t [THEN conjunct2, THEN conjunct2, THEN conjunct2, THEN conjunct2, THEN conjunct2,
               rule_format]
  have 1: "extract_symbol_table qsort_keeping ex_file_cmds =
     Inr ([\<lparr>n_strx = 1, n_value = 0x1000\<rparr>,
           \<lparr>n_strx = 8, n_value = 0x1000\<rparr>,
           \<lparr>n_strx = 15, n_value = 0x1040\<rparr>], ex_pool)"
    using t1 by (simp add: qsort_keeping_def nlist_cmp_def)
  have 2: "nlist_cmp \<lparr>n_strx = 1, n_value = 0x1000\<rparr> \<lparr>n_strx = 15, n_value = 0x1040\<rparr> =
     nlist_cmp \<lparr>n_strx = 8, n_value = 0x1000\<rparr> \<lparr>n_strx = 15, n_value = 0x1040\<rparr>"
    by (rule t4) simp
  have 3: "extract_symbol_table qsort_keeping (LC_OTHER # ex_file_cmds) =
     extract_symbol_table qsort_keeping ex_file_cmds"
    by (rule t6) (rule f')
  from 1 2 3 show ?thesis by (intro conjI)
qed

text \<open>
  The order of equal addresses is not kept. For the file whose symtab lists \<open>_a\<close> to
  \<open>_g\<close> at one address, the \<^verbatim>\<open>qsort\<close> of the BSD C library returns, and the extracted
  table lists \<open>_d\<close> first and \<open>_a\<close> fourth: the pivot, the middle entry, is swapped to
  the front before the partition, and no later step moves it back. The run is one
  partition in which every entry compares equal to the pivot; it takes neither the switch
  to insertion sort nor a further activation.
\<close>

theorem equal_addresses_reordered:
  "qsort_fuel 8 nlist_cmp
     [\<lparr>n_strx = 1, n_value = 0x1000\<rparr>, \<lparr>n_strx = 4, n_value = 0x1000\<rparr>,
      \<lparr>n_strx = 7, n_value = 0x1000\<rparr>, \<lparr>n_strx = 10, n_value = 0x1000\<rparr>,
      \<lparr>n_strx = 13, n_value = 0x1000\<rparr>, \<lparr>n_strx = 16, n_value = 0x1000\<rparr>,
      \<lparr>n_strx = 19, n_value = 0x1000\<rparr>]
     = Some [\<lparr>n_strx = 10, n_value = 0x1000\<rparr>, \<lparr>n_strx = 4, n_value = 0x1000\<rparr>,
             \<lparr>n_strx = 7, n_value = 0x1000\<rparr>, \<lparr>n_strx = 1, n_value = 0x1000\<rparr>,
             \<lparr>n_strx = 13, n_value = 0x1000\<rparr>, \<lparr>n_strx = 16, n_value = 0x1000\<rparr>,
             \<lparr>n_strx = 19, n_value = 0x1000\<rparr>] \<and>
   extract_symbol_table qsort_bsd alias_cmds
     = Inr ([\<lparr>n_strx = 10, n_value = 0x1000\<rparr>, \<lparr>n_strx = 4, n_value = 0x1000\<rparr>,
             \<lparr>n_strx = 7, n_value = 0x1000\<rparr>, \<lparr>n_strx = 1, n_value = 0x1000\<rparr>,
             \<lparr>n_strx = 13, n_value = 0x1000\<rparr>, \<lparr>n_strx = 16, n_value = 0x1000\<rparr>,
             \<lparr>n_strx = 19, n_value = 0x1000\<rparr>], alias_pool)"
  by code_simp

end
